theory Spec2Isabelle
  imports
    Complex_Main
    "HOL-Library.Char_ord"
    "HOL-Library.List_Lexorder"
    "HOL-Library.Product_Lexorder"
    "HOL-Library.Option_ord"
    "HOL-Library.Log_Nat"
    "HOL-Library.Multiset"
begin

section \<open>TaskPlanner: the translation layer between tasks and tracker issues\<close>

text \<open>
  A shallow embedding of \<^verbatim>\<open>src/types/index.js\<close> and of the gh-CLI
  variant of the core (\<^verbatim>\<open>parseYamlFrontMatter\<close> \<dots> \<^verbatim>\<open>getMyDayTasks\<close>).
  JavaScript strings are \<^typ>\<open>string\<close> (lists of 8-bit code units), the
  enum-like string constants of the source stay strings, and objects with a
  fixed key order are association lists in \<^verbatim>\<open>Object.entries\<close> order.
\<close>

subsection \<open>The label vocabulary (\<^verbatim>\<open>src/types/index.js\<close>)\<close>

definition STATUS_LABELS :: "(string \<times> string) list" where
  "STATUS_LABELS =
     [(''todo'', ''tp:todo''),
      (''in-progress'', ''tp:in-progress''),
      (''done'', ''tp:done''),
      (''blocked'', ''tp:blocked'')]"

definition PRIORITY_LABELS :: "(string \<times> string) list" where
  "PRIORITY_LABELS =
     [(''urgent'', ''tp:urgent''),
      (''high'', ''tp:high''),
      (''medium'', ''tp:medium''),
      (''low'', ''tp:low'')]"

definition PRIORITY_ORDER :: "(string \<times> nat) list" where
  "PRIORITY_ORDER = [(''urgent'', 0), (''high'', 1), (''medium'', 2), (''low'', 3)]"

text \<open>\<^verbatim>\<open>Object.values(STATUS_LABELS)\<close> and \<^verbatim>\<open>Object.values(PRIORITY_LABELS)\<close>:
  the eight fixed system label names.\<close>

definition system_label_names :: "string list" where
  "system_label_names = map snd STATUS_LABELS @ map snd PRIORITY_LABELS"

subsection \<open>Label helpers\<close>

text \<open>A label arrives either as a bare string or as an object with a \<^verbatim>\<open>name\<close>
  (the tracker gives every label object a name).\<close>

datatype label = LabelString string | LabelObject string

fun label_name :: "label \<Rightarrow> string" where
  "label_name (LabelString s) = s"
| "label_name (LabelObject n) = n"

text \<open>\<^verbatim>\<open>labels.map(l => typeof l === 'string' ? l : l.name)\<close>\<close>

definition labelNames :: "label list \<Rightarrow> string list" where
  "labelNames labels = map label_name labels"

text \<open>\<^verbatim>\<open>s.startsWith(p)\<close>\<close>

definition startsWith :: "string \<Rightarrow> string \<Rightarrow> bool" where
  "startsWith s p = (take (length p) s = p)"

text \<open>The loop \<^verbatim>\<open>for (const [k, label] of Object.entries(T)) if (names.includes(label)) return k;\<close>
  followed by \<^verbatim>\<open>return dflt\<close>.\<close>

fun first_present :: "(string \<times> string) list \<Rightarrow> string list \<Rightarrow> string \<Rightarrow> string" where
  "first_present [] names dflt = dflt"
| "first_present ((k, l) # es) names dflt =
     (if l \<in> set names then k else first_present es names dflt)"

definition getStatusFromLabels :: "label list \<Rightarrow> string" where
  "getStatusFromLabels labels = first_present STATUS_LABELS (labelNames labels) ''todo''"

definition getPriorityFromLabels :: "label list \<Rightarrow> string" where
  "getPriorityFromLabels labels = first_present PRIORITY_LABELS (labelNames labels) ''medium''"

definition getUserLabels :: "label list \<Rightarrow> string list" where
  "getUserLabels labels = filter (\<lambda>n. \<not> startsWith n ''tp:'') (labelNames labels)"

subsection \<open>JavaScript values and the runtime\<close>

text \<open>
  A Number is an IEEE double: a rational when finite (the sign of zero is not kept:
  \<^verbatim>\<open>String(-0)\<close> is \<^verbatim>\<open>"0"\<close>), an infinity or NaN.
\<close>

datatype jsnum = Finite rat | PosInfinity | NegInfinity | NaN

text \<open>The values a metadata map holds: booleans, null, numbers, strings and arrays of strings.\<close>

datatype jsval = JBool bool | JNull | JNum jsnum | JStr string | JArr "string list"

text \<open>An object with its own enumerable properties in \<^verbatim>\<open>Object.entries\<close> order.\<close>

type_synonym jsobject = "(string \<times> jsval) list"

text \<open>
  What the core takes from the runtime and is not code of the repository:
  \<^verbatim>\<open>Number(s)\<close> on a string (the string numeric literal grammar and the
  rounding to a double), number to string conversion (the shortest digits that
  read back), \<^verbatim>\<open>a.localeCompare(b)\<close> (the collation of the host locale), and
  the members that every plain object inherits from \<^verbatim>\<open>Object.prototype\<close>:
  \<^verbatim>\<open>js_inherited\<close> gives, for the name of such a member, the text that the
  member converts to (for a built-in function the engine's rendering of its
  source). The core is modelled relative to them.
\<close>

record js_runtime =
  js_Number :: "string \<Rightarrow> jsnum"
  js_String :: "jsnum \<Rightarrow> string"
  js_localeCompare :: "string \<Rightarrow> string \<Rightarrow> int"
  js_inherited :: "string \<Rightarrow> string option"

text \<open>What a call can throw: a TypeError of the runtime (a method that the value
  does not have), or the error of a \<^verbatim>\<open>gh\<close> command that failed.\<close>

datatype error = TypeError | CommandFailed

text \<open>\<^verbatim>\<open>isNaN\<close>\<close>

definition isNaN :: "jsnum \<Rightarrow> bool" where
  "isNaN n = (n = NaN)"

text \<open>Truthiness, as \<^verbatim>\<open>if (v)\<close>, \<^verbatim>\<open>v || d\<close> and \<^verbatim>\<open>!v\<close> test it.\<close>

fun truthy :: "jsval \<Rightarrow> bool" where
  "truthy (JBool b) = b"
| "truthy JNull = False"
| "truthy (JNum n) = (n \<noteq> Finite 0 \<and> n \<noteq> NaN)"
| "truthy (JStr s) = (s \<noteq> [])"
| "truthy (JArr xs) = True"

text \<open>\<^verbatim>\<open>v || d\<close> on values, and \<^verbatim>\<open>s || d\<close> on a string that may be missing.\<close>

definition js_or :: "jsval \<Rightarrow> jsval \<Rightarrow> jsval" where
  "js_or v d = (if truthy v then v else d)"

fun str_or :: "string option \<Rightarrow> string \<Rightarrow> string" where
  "str_or None d = d"
| "str_or (Some s) d = (if s = [] then d else s)"

text \<open>\<^verbatim>\<open>xs.join(sep)\<close>\<close>

fun join :: "string \<Rightarrow> string list \<Rightarrow> string" where
  "join sep [] = []"
| "join sep [x] = x"
| "join sep (x # y # ys) = x @ sep @ join sep (y # ys)"

text \<open>\<^verbatim>\<open>s.split(c)\<close> for a one-character separator; the empty string splits
  into one empty piece.\<close>

fun split :: "char \<Rightarrow> string \<Rightarrow> string list" where
  "split c [] = [[]]"
| "split c (x # xs) =
     (if x = c then [] # split c xs
      else (case split c xs of [] \<Rightarrow> [[x]] | l # ls \<Rightarrow> (x # l) # ls))"

text \<open>\<^verbatim>\<open>s.indexOf(c)\<close>, with \<^term>\<open>None\<close> for \<^verbatim>\<open>-1\<close>.\<close>

fun indexOf :: "char \<Rightarrow> string \<Rightarrow> nat option" where
  "indexOf c [] = None"
| "indexOf c (x # xs) = (if x = c then Some 0 else map_option Suc (indexOf c xs))"

text \<open>The white space and line terminators that \<^verbatim>\<open>trim\<close> strips, among the
  8-bit code units: TAB, LF, VT, FF, CR, SP and NBSP.\<close>

definition js_space :: "char \<Rightarrow> bool" where
  "js_space c = (c \<in> {CHR 0x09, CHR 0x0A, CHR 0x0B, CHR 0x0C, CHR 0x0D, CHR 0x20, CHR 0xA0})"

definition trim :: "string \<Rightarrow> string" where
  "trim s = rev (dropWhile js_space (rev (dropWhile js_space s)))"

text \<open>The template literal's value to string conversion.\<close>

fun to_string :: "js_runtime \<Rightarrow> jsval \<Rightarrow> string" where
  "to_string env (JBool b) = (if b then ''true'' else ''false'')"
| "to_string env JNull = ''null''"
| "to_string env (JNum n) = js_String env n"
| "to_string env (JStr s) = s"
| "to_string env (JArr xs) = join '','' xs"

text \<open>
  An object enumerates its keys that are array indices first, in ascending
  order, and then its other keys in the order of their creation. An array index
  is the canonical decimal text of an integer from 0 to \<open>2\<^sup>3\<^sup>2 - 2\<close>.
  \<^term>\<open>key_before a b\<close> says that the key \<open>a\<close> keeps its place in front of a
  key \<open>b\<close> that is created after it.
\<close>

definition is_digit :: "char \<Rightarrow> bool" where
  "is_digit c = (CHR ''0'' \<le> c \<and> c \<le> CHR ''9'')"

definition digits_value :: "string \<Rightarrow> int" where
  "digits_value s = foldl (\<lambda>n c. 10 * n + (of_char c - 48)) 0 s"

definition array_index :: "string \<Rightarrow> int option" where
  "array_index k =
     (if k \<noteq> [] \<and> (\<forall>c \<in> set k. is_digit c) \<and> (k = ''0'' \<or> hd k \<noteq> CHR ''0'')
         \<and> digits_value k \<le> 4294967294
      then Some (digits_value k) else None)"

definition key_before :: "string \<Rightarrow> string \<Rightarrow> bool" where
  "key_before a b =
     (case array_index b of
        None \<Rightarrow> True
      | Some n \<Rightarrow> (case array_index a of None \<Rightarrow> False | Some m \<Rightarrow> m < n))"

text \<open>The keys of an object, in the order of \<^verbatim>\<open>Object.entries\<close>.\<close>

fun key_order :: "string list \<Rightarrow> bool" where
  "key_order (a # b # ks) = (key_before a b \<and> key_order (b # ks))"
| "key_order ks = True"

text \<open>
  \<^verbatim>\<open>obj[key] = value\<close> on a plain object: an existing key keeps its place, a new
  one goes to its place in the enumeration order. The key \<^verbatim>\<open>__proto__\<close> is the
  prototype accessor: assigning a primitive to it creates no property.
\<close>

fun put :: "string \<Rightarrow> 'a \<Rightarrow> (string \<times> 'a) list \<Rightarrow> (string \<times> 'a) list" where
  "put k v [] = [(k, v)]"
| "put k v ((k', v') # ps) =
     (if k = k' then (k, v) # ps
      else if key_before k' k then (k', v') # put k v ps
      else (k, v) # (k', v') # ps)"

definition set_prop :: "string \<Rightarrow> 'a \<Rightarrow> (string \<times> 'a) list \<Rightarrow> (string \<times> 'a) list" where
  "set_prop k v obj = (if k = ''__proto__'' then obj else put k v obj)"

text \<open>\<^verbatim>\<open>obj[key]\<close> on own properties, \<^term>\<open>None\<close> for \<^verbatim>\<open>undefined\<close>.\<close>

definition get_prop :: "jsobject \<Rightarrow> string \<Rightarrow> jsval option" where
  "get_prop obj k = map_of obj k"

subsection \<open>YAML front matter\<close>

record front_matter =
  meta :: jsobject
  description :: string

text \<open>
  The regular expression \<^verbatim>\<open>/^---\n([\s\S]*?)\n---\n?([\s\S]*)$/\<close>: the body opens
  with the delimiter line; the lazy first group ends at the first later
  \<^verbatim>\<open>\n---\<close>; one more newline is taken when there is one; the second group is
  the rest. \<^term>\<open>find_close\<close> is the lazy scan.
\<close>

fun find_close :: "string \<Rightarrow> (string \<times> string) option" where
  "find_close [] = None"
| "find_close (c # cs) =
     (if startsWith (c # cs) ''\<newline>---'' then Some ([], drop 4 (c # cs))
      else map_option (\<lambda>(a, b). (c # a, b)) (find_close cs))"

definition match_front_matter :: "string \<Rightarrow> (string \<times> string) option" where
  "match_front_matter body =
     (if startsWith body ''---\<newline>'' then
        (case find_close (drop 4 body) of
           None \<Rightarrow> None
         | Some (m1, rest) \<Rightarrow>
             Some (m1, if startsWith rest ''\<newline>'' then drop 1 rest else rest))
      else None)"

text \<open>The coercion chain applied to a trimmed value.\<close>

definition coerce :: "js_runtime \<Rightarrow> string \<Rightarrow> jsval" where
  "coerce env v =
     (if v = ''true'' then JBool True
      else if v = ''false'' then JBool False
      else if v = ''null'' \<or> v = [] then JNull
      else if \<not> isNaN (js_Number env v) \<and> v \<noteq> [] then JNum (js_Number env v)
      else JStr v)"

text \<open>The loop over the lines of the first group.\<close>

fun parse_lines :: "js_runtime \<Rightarrow> string list \<Rightarrow> jsobject \<Rightarrow> jsobject" where
  "parse_lines env [] m = m"
| "parse_lines env (line # ls) m =
     (case indexOf CHR '':'' line of
        None \<Rightarrow> parse_lines env ls m
      | Some idx \<Rightarrow>
          parse_lines env ls
            (set_prop (trim (take idx line)) (coerce env (trim (drop (idx + 1) line))) m))"

definition parseYamlFrontMatter :: "js_runtime \<Rightarrow> string \<Rightarrow> front_matter" where
  "parseYamlFrontMatter env body =
     (if body = [] then \<lparr>meta = [], description = []\<rparr>
      else case match_front_matter body of
        None \<Rightarrow> \<lparr>meta = [], description = body\<rparr>
      | Some (m1, m2) \<Rightarrow>
          \<lparr>meta = parse_lines env (split CHR ''\<newline>'' m1) [], description = trim m2\<rparr>)"

text \<open>One line per entry: an array is joined with \<^verbatim>\<open>', '\<close>, anything else goes
  through the template literal.\<close>

fun entry_line :: "js_runtime \<Rightarrow> string \<times> jsval \<Rightarrow> string" where
  "entry_line env (key, JArr xs) = key @ '': '' @ join '', '' xs"
| "entry_line env (key, v) = key @ '': '' @ to_string env v"

text \<open>\<^verbatim>\<open>description || ''\<close> is the description itself when it is a string.\<close>

definition buildYamlFrontMatter :: "js_runtime \<Rightarrow> jsobject \<Rightarrow> string \<Rightarrow> string" where
  "buildYamlFrontMatter env m d =
     join ''\<newline>'' ([''---''] @ map (entry_line env) m @ [''---'', [], d])"

text \<open>
  The metadata that survives a round trip. A key is written and read back as it
  is when it has no white space at its ends, no colon and no line break, does
  not open with the delimiter and is not the prototype accessor. A value is
  read back as it is when its text is a single trimmed non-empty line and the
  coercion chain takes the text back to the value: booleans and null always;
  a number when \<^verbatim>\<open>Number\<close> reads its text back; a string when it is not one
  of the three keywords and \<^verbatim>\<open>Number\<close> does not read it.
\<close>

definition single_line :: "string \<Rightarrow> bool" where
  "single_line s = (s \<noteq> [] \<and> trim s = s \<and> CHR ''\<newline>'' \<notin> set s)"

text \<open>A line of the block that cannot be taken for the closing delimiter.\<close>

definition safe_line :: "string \<Rightarrow> bool" where
  "safe_line l = (CHR ''\<newline>'' \<notin> set l \<and> 3 \<le> length l \<and> take 3 l \<noteq> ''---'')"

definition plain_key :: "string \<Rightarrow> bool" where
  "plain_key k =
     (trim k = k \<and> CHR '':'' \<notin> set k \<and> CHR ''\<newline>'' \<notin> set k
      \<and> \<not> startsWith k ''---'' \<and> k \<noteq> ''__proto__'')"

fun plain_value :: "js_runtime \<Rightarrow> jsval \<Rightarrow> bool" where
  "plain_value env (JBool b) = True"
| "plain_value env JNull = True"
| "plain_value env (JNum n) =
     (single_line (js_String env n) \<and> js_String env n \<notin> {''true'', ''false'', ''null''}
      \<and> js_Number env (js_String env n) = n \<and> n \<noteq> NaN)"
| "plain_value env (JStr s) =
     (single_line s \<and> s \<notin> {''true'', ''false'', ''null''} \<and> js_Number env s = NaN)"
| "plain_value env (JArr xs) = False"

subsection \<open>Issues and tasks\<close>

text \<open>
  A raw issue as either transport delivers it; a field that one transport does
  not send is \<^term>\<open>None\<close>. \<^verbatim>\<open>assignees\<close> holds the logins, \<^verbatim>\<open>milestone\<close>
  number and title; a missing label array is the empty list (both readers take
  it that way).
\<close>

record issue =
  issue_number :: nat
  issue_title :: string
  issue_body :: "string option"
  issue_state :: string
  issue_labels :: "label list"
  issue_assignees :: "string list"
  issue_assignee :: "string option"
  issue_milestone :: "(nat \<times> string) option"
  issue_createdAt :: "string option"
  issue_created_at :: "string option"
  issue_updatedAt :: "string option"
  issue_updated_at :: "string option"
  issue_html_url :: "string option"
  issue_url :: "string option"

text \<open>
  The Task of the type definitions. \<^verbatim>\<open>due_date\<close> is declared
  \<^verbatim>\<open>string|null\<close>, but it holds whatever the parser read, a number or
  \<^verbatim>\<open>true\<close> as well as a string, and so do the other metadata fields.
  \<^verbatim>\<open>my_day\<close> is only ever tested for truthiness and is kept as that.
\<close>

record task =
  task_id :: nat
  title :: string
  body :: string
  status :: string
  priority :: string
  due_date :: jsval
  labels :: "string list"
  assignee :: "string option"
  sprint_id :: "nat option"
  sprint_name :: "string option"
  my_day :: bool
  estimated_hours :: jsval
  actual_hours :: jsval
  tags :: jsval
  parent_task :: jsval
  created_at :: string
  updated_at :: string
  html_url :: string

text \<open>\<^verbatim>\<open>meta.k || d\<close>, where a missing key is \<^verbatim>\<open>undefined\<close>.\<close>

definition prop_or :: "jsobject \<Rightarrow> string \<Rightarrow> jsval \<Rightarrow> jsval" where
  "prop_or obj k d = (case get_prop obj k of None \<Rightarrow> d | Some v \<Rightarrow> js_or v d)"

text \<open>\<^verbatim>\<open>meta.my_day || false\<close>; the flag is only ever tested for truthiness.\<close>

fun as_flag :: "jsval option \<Rightarrow> bool" where
  "as_flag None = False"
| "as_flag (Some v) = truthy v"

text \<open>\<^verbatim>\<open>typeof l === 'string' ? { name: l } : l\<close>\<close>

fun normalize_label :: "label \<Rightarrow> label" where
  "normalize_label (LabelString s) = LabelObject s"
| "normalize_label (LabelObject n) = LabelObject n"

text \<open>\<^verbatim>\<open>issue.assignees?.[0]?.login || issue.assignee?.login || null\<close>\<close>

definition first_assignee :: "issue \<Rightarrow> string option" where
  "first_assignee i =
     (let fallback = (case issue_assignee i of
                        None \<Rightarrow> None
                      | Some s \<Rightarrow> if s = [] then None else Some s)
      in case issue_assignees i of
           [] \<Rightarrow> fallback
         | a # _ \<Rightarrow> if a = [] then fallback else Some a)"

text \<open>
  \<^verbatim>\<open>getPriorityFromLabels(labels) || meta.priority || 'medium'\<close>: the first operand
  is one of the four non-empty names, so the chain stops there.
\<close>

definition issueToTask :: "js_runtime \<Rightarrow> issue \<Rightarrow> task" where
  "issueToTask env i =
     (let fm = parseYamlFrontMatter env (str_or (issue_body i) []);
          ls = map normalize_label (issue_labels i)
      in \<lparr>task_id = issue_number i,
          title = issue_title i,
          body = description fm,
          status = getStatusFromLabels ls,
          priority = getPriorityFromLabels ls,
          due_date = prop_or (meta fm) ''due_date'' JNull,
          labels = getUserLabels ls,
          assignee = first_assignee i,
          sprint_id = (case issue_milestone i of
                         None \<Rightarrow> None
                       | Some (n, t) \<Rightarrow> if n = 0 then None else Some n),
          sprint_name = (case issue_milestone i of
                           None \<Rightarrow> None
                         | Some (n, t) \<Rightarrow> if t = [] then None else Some t),
          my_day = as_flag (get_prop (meta fm) ''my_day''),
          estimated_hours = prop_or (meta fm) ''estimated_hours'' (JNum (Finite 0)),
          actual_hours = prop_or (meta fm) ''actual_hours'' (JNum (Finite 0)),
          tags = prop_or (meta fm) ''tags'' (JArr []),
          parent_task = prop_or (meta fm) ''parent_task'' JNull,
          created_at = str_or (issue_createdAt i) (str_or (issue_created_at i) []),
          updated_at = str_or (issue_updatedAt i) (str_or (issue_updated_at i) []),
          html_url = str_or (issue_html_url i) (str_or (issue_url i) [])\<rparr>)"

subsection \<open>Listing: the discriminator, the flag filter and the sort\<close>

text \<open>\<^verbatim>\<open>a.localeCompare(b)\<close> on values: only a string has the method, and the
  argument is converted to a string.\<close>

fun localeCompare :: "js_runtime \<Rightarrow> jsval \<Rightarrow> jsval \<Rightarrow> error + int" where
  "localeCompare env (JStr a) b = Inr (js_localeCompare env a (to_string env b))"
| "localeCompare env a b = Inl TypeError"

text \<open>\<^verbatim>\<open>PRIORITY_ORDER[p] ?? 3\<close> (no priority that \<^verbatim>\<open>issueToTask\<close> yields is a
  name that the table inherits).\<close>

definition priority_rank :: "string \<Rightarrow> int" where
  "priority_rank p = (case map_of PRIORITY_ORDER p of None \<Rightarrow> 3 | Some n \<Rightarrow> int n)"

text \<open>The comparator handed to \<^verbatim>\<open>tasks.sort\<close>.\<close>

definition compareTasks :: "js_runtime \<Rightarrow> task \<Rightarrow> task \<Rightarrow> error + int" where
  "compareTasks env a b =
     (let pa = priority_rank (priority a); pb = priority_rank (priority b)
      in if pa \<noteq> pb then Inr (pa - pb)
         else if truthy (due_date a) \<and> truthy (due_date b)
           then localeCompare env (due_date a) (due_date b)
         else if truthy (due_date a) then Inr (- 1)
         else if truthy (due_date b) then Inr 1
         else Inr 0)"

text \<open>
  \<^verbatim>\<open>Array.prototype.sort\<close> with a comparator is a stable sort, and an exception
  of the comparator ends it. It is modelled as the stable insertion sort that
  takes the elements from the left: each one moves from the end of the sorted
  part (kept last element first) towards the front while the comparator puts
  it before the element it meets, so that it stays behind an earlier element
  it ties with. The element that moves, the later one of the two, is the first
  argument of the comparison, as in the insertion sort of V8. Which pairs are
  compared is the choice of the engine; the choice shows only on an array where
  the comparator throws for some pairs.
\<close>

fun insert_by :: "('a \<Rightarrow> 'a \<Rightarrow> error + int) \<Rightarrow> 'a \<Rightarrow> 'a list \<Rightarrow> error + 'a list" where
  "insert_by cmp p [] = Inr [p]"
| "insert_by cmp p (a # rs) =
     (case cmp p a of
        Inl e \<Rightarrow> Inl e
      | Inr c \<Rightarrow>
          if c < 0 then (case insert_by cmp p rs of Inl e \<Rightarrow> Inl e | Inr zs \<Rightarrow> Inr (a # zs))
          else Inr (p # a # rs))"

fun sort_from :: "('a \<Rightarrow> 'a \<Rightarrow> error + int) \<Rightarrow> 'a list \<Rightarrow> 'a list \<Rightarrow> error + 'a list" where
  "sort_from cmp [] rs = Inr (rev rs)"
| "sort_from cmp (x # xs) rs =
     (case insert_by cmp x rs of Inl e \<Rightarrow> Inl e | Inr rs' \<Rightarrow> sort_from cmp xs rs')"

definition Array_sort :: "('a \<Rightarrow> 'a \<Rightarrow> error + int) \<Rightarrow> 'a list \<Rightarrow> error + 'a list" where
  "Array_sort cmp xs = sort_from cmp xs []"

record filters =
  filter_status :: "string option"
  filter_priority :: "string option"
  filter_assignee :: "string option"
  filter_sprint_id :: "nat option"
  filter_my_day :: bool
  filter_include_done :: bool

text \<open>\<^verbatim>\<open>l.name?.startsWith('tp:')\<close>: a bare string has no \<^verbatim>\<open>name\<close>.\<close>

fun has_tp_name :: "label \<Rightarrow> bool" where
  "has_tp_name (LabelString s) = False"
| "has_tp_name (LabelObject n) = startsWith n ''tp:''"

definition is_planner_issue :: "issue \<Rightarrow> bool" where
  "is_planner_issue i = (\<exists>l \<in> set (issue_labels i). has_tp_name l)"

text \<open>What \<^verbatim>\<open>listTasks\<close> does with the issues that the listing command returned.\<close>

definition listTasks_local :: "js_runtime \<Rightarrow> filters \<Rightarrow> issue list \<Rightarrow> error + task list" where
  "listTasks_local env fs issues =
     (let tasks = map (issueToTask env) (filter is_planner_issue issues);
          tasks' = (if filter_my_day fs then filter my_day tasks else tasks)
      in Array_sort (compareTasks env) tasks')"

text \<open>
  The order that the comparator describes, as a sort key: the priority rank, then
  dated before undated, then the date by its collation key. A collation key is
  a map into a linear order that \<^verbatim>\<open>localeCompare\<close> follows. The comparator
  is defined on a task whose due date is a string or falsy.
\<close>

fun comparable_date :: "jsval \<Rightarrow> bool" where
  "comparable_date (JStr s) = True"
| "comparable_date v = (\<not> truthy v)"

definition collation_key :: "js_runtime \<Rightarrow> (string \<Rightarrow> 'k::linorder) \<Rightarrow> bool" where
  "collation_key env key =
     (\<forall>a b. (js_localeCompare env a b < 0 \<longleftrightarrow> key a < key b)
          \<and> (js_localeCompare env a b = 0 \<longleftrightarrow> key a = key b))"

definition canonical_key :: "js_runtime \<Rightarrow> (string \<Rightarrow> 'k::linorder) \<Rightarrow> task \<Rightarrow> int \<times> bool \<times> 'k option" where
  "canonical_key env key t =
     (priority_rank (priority t),
      \<not> truthy (due_date t),
      if truthy (due_date t) then Some (key (to_string env (due_date t))) else None)"

subsection \<open>Derived views\<close>

record my_day_view =
  view_my_day :: "task list"
  view_due_today :: "task list"
  view_overdue :: "task list"
  view_in_progress :: "task list"
  view_total_focus :: nat

text \<open>\<^verbatim>\<open>a < b\<close> on Numbers: false when either is NaN.\<close>

fun num_less :: "jsnum \<Rightarrow> jsnum \<Rightarrow> bool" where
  "num_less NaN b = False"
| "num_less a NaN = False"
| "num_less (Finite a) (Finite b) = (a < b)"
| "num_less (Finite a) PosInfinity = True"
| "num_less (Finite a) NegInfinity = False"
| "num_less PosInfinity b = False"
| "num_less NegInfinity NegInfinity = False"
| "num_less NegInfinity b = True"

text \<open>\<^verbatim>\<open>v < today\<close>, where \<^verbatim>\<open>today\<close> is a string: a string (and an array, by its
  text) compares with it by code units; any other value is compared as a
  number with the number that the string reads as.\<close>

fun js_less :: "js_runtime \<Rightarrow> jsval \<Rightarrow> string \<Rightarrow> bool" where
  "js_less env (JStr a) b = (a < b)"
| "js_less env (JArr xs) b = (join '','' xs < b)"
| "js_less env (JNum n) b = num_less n (js_Number env b)"
| "js_less env (JBool t) b = num_less (Finite (if t then 1 else 0)) (js_Number env b)"
| "js_less env JNull b = num_less (Finite 0) (js_Number env b)"

text \<open>\<^verbatim>\<open>getMyDayTasks\<close> on the listed tasks; \<^verbatim>\<open>today\<close> is the ISO date of the
  clock. \<^verbatim>\<open>===\<close> holds between the date and \<^verbatim>\<open>today\<close> when the date is that
  string.\<close>

definition getMyDayTasks_local :: "js_runtime \<Rightarrow> string \<Rightarrow> task list \<Rightarrow> my_day_view" where
  "getMyDayTasks_local env today tasks =
     (let myDayTasks = filter (\<lambda>t. my_day t \<and> status t \<noteq> ''done'') tasks;
          dueToday = filter (\<lambda>t. due_date t = JStr today \<and> status t \<noteq> ''done'' \<and> \<not> my_day t) tasks;
          overdueTasks = filter (\<lambda>t. truthy (due_date t) \<and> js_less env (due_date t) today
                                     \<and> status t \<noteq> ''done'' \<and> \<not> my_day t) tasks;
          inProgress = filter (\<lambda>t. status t = ''in-progress'' \<and> \<not> my_day t
                                   \<and> due_date t \<noteq> JStr today) tasks
      in \<lparr>view_my_day = myDayTasks,
          view_due_today = dueToday,
          view_overdue = overdueTasks,
          view_in_progress = inProgress,
          view_total_focus = length myDayTasks + length dueToday + length overdueTasks\<rparr>)"

record column =
  column_title :: string
  column_tasks :: "task list"
  column_color :: string

definition board_columns :: "(string \<times> column) list" where
  "board_columns =
     [(''todo'', \<lparr>column_title = ''To Do'', column_tasks = [], column_color = ''#0075ca''\<rparr>),
      (''in-progress'', \<lparr>column_title = ''In Progress'', column_tasks = [], column_color = ''#fbca04''\<rparr>),
      (''blocked'', \<lparr>column_title = ''Blocked'', column_tasks = [], column_color = ''#d73a4a''\<rparr>),
      (''done'', \<lparr>column_title = ''Done'', column_tasks = [], column_color = ''#0e8a16''\<rparr>)]"

text \<open>\<^verbatim>\<open>if (columns[task.status]) columns[task.status].tasks.push(task)\<close>: a status
  that is no key of the table leaves it as it is (the names that every object
  inherits are no status that \<^verbatim>\<open>issueToTask\<close> yields).\<close>

definition board_push :: "task \<Rightarrow> (string \<times> column) list \<Rightarrow> (string \<times> column) list" where
  "board_push t cols =
     map (\<lambda>(k, c). if k = status t then (k, c\<lparr>column_tasks := column_tasks c @ [t]\<rparr>) else (k, c)) cols"

definition getBoardData_local :: "task list \<Rightarrow> (string \<times> column) list" where
  "getBoardData_local tasks = fold board_push tasks board_columns"

subsection \<open>Analytics\<close>

text \<open>
  Arithmetic on Numbers is IEEE binary64: every operation yields the exact result
  rounded to 53 significant bits, ties to the even significand.
  \<^term>\<open>binade\<close> is the exponent \<open>e\<close> with \<open>2\<^sup>e \<le> x < 2\<^sup>e\<^sup>+\<^sup>1\<close>, found from the bit
  lengths of numerator and denominator. The exponent range is left unbounded:
  the quotients and products below lie between \<open>2\<^sup>-\<^sup>3\<^sup>2\<close> and 100.
\<close>

definition binade :: "rat \<Rightarrow> int" where
  "binade x =
     (let (a, b) = quotient_of x;
          k = bitlen a - bitlen b
      in if 2 powi k \<le> x then k else k - 1)"

definition round_half_even :: "rat \<Rightarrow> int" where
  "round_half_even q =
     (let f = \<lfloor>q\<rfloor>; r = q - of_int f
      in if r < 1 / 2 then f else if 1 / 2 < r then f + 1 else if even f then f else f + 1)"

definition binary64 :: "rat \<Rightarrow> rat" where
  "binary64 x =
     (if x = 0 then 0
      else let u = 2 powi (binade \<bar>x\<bar> - 52)
           in sgn x * of_int (round_half_even (\<bar>x\<bar> / u)) * u)"

text \<open>\<^verbatim>\<open>Math.round\<close>: the closest integer, the upper one of two equally close.\<close>

definition Math_round :: "rat \<Rightarrow> int" where
  "Math_round x = \<lfloor>x + 1 / 2\<rfloor>"

text \<open>\<^verbatim>\<open>total ? Math.round((completed / total) * 100) : 0\<close>\<close>

definition completion_rate :: "nat \<Rightarrow> nat \<Rightarrow> int" where
  "completion_rate done n =
     (if n = 0 then 0
      else Math_round (binary64 (binary64 (of_nat done / of_nat n) * 100)))"

text \<open>
  What a table of counts holds under a key: a count, or a text. The text comes
  from a key that the table does not have but inherits, such as
  \<^verbatim>\<open>constructor\<close>: there \<^verbatim>\<open>counts[k] || 0\<close> is the inherited member, and
  adding 1 to it appends the digit to its text.
\<close>

datatype count = Count nat | Text string

text \<open>\<^verbatim>\<open>counts[k] = (counts[k] || 0) + 1\<close>\<close>

definition bump :: "js_runtime \<Rightarrow> string \<Rightarrow> (string \<times> count) list \<Rightarrow> (string \<times> count) list" where
  "bump env k counts =
     set_prop k
       (case map_of counts k of
          Some (Count n) \<Rightarrow> Count (n + 1)
        | Some (Text s) \<Rightarrow> if s = [] then Count 1 else Text (s @ ''1'')
        | None \<Rightarrow> (case js_inherited env k of None \<Rightarrow> Count 1 | Some s \<Rightarrow> Text (s @ ''1'')))
       counts"

text \<open>\<^verbatim>\<open>statusCounts.done\<close>: the key is in its table from the start, and what
  stands under it is a count.\<close>

definition count_of :: "(string \<times> count) list \<Rightarrow> string \<Rightarrow> nat" where
  "count_of counts k = (case map_of counts k of Some (Count n) \<Rightarrow> n | _ \<Rightarrow> 0)"

record analytics =
  total_count :: nat
  completed :: nat
  completionRate :: int
  overdue :: nat
  statusCounts :: "(string \<times> count) list"
  priorityCounts :: "(string \<times> count) list"
  assigneeCounts :: "(string \<times> count) list"
  analytics_tasks :: "task list"

text \<open>\<^verbatim>\<open>getAnalytics\<close> on the listed tasks.\<close>

definition getAnalytics_local :: "js_runtime \<Rightarrow> string \<Rightarrow> task list \<Rightarrow> analytics" where
  "getAnalytics_local env today tasks =
     (let statusCounts0 = [(''todo'', Count 0), (''in-progress'', Count 0), (''done'', Count 0),
                            (''blocked'', Count 0)];
          priorityCounts0 = [(''urgent'', Count 0), (''high'', Count 0), (''medium'', Count 0),
                              (''low'', Count 0)];
          sc = fold (\<lambda>t. bump env (status t)) tasks statusCounts0;
          pc = fold (\<lambda>t. bump env (priority t)) tasks priorityCounts0;
          ac = fold (\<lambda>t. bump env (str_or (assignee t) ''Unassigned'')) tasks [];
          od = length (filter (\<lambda>t. truthy (due_date t) \<and> js_less env (due_date t) today
                                   \<and> status t \<noteq> ''done'') tasks);
          n = length tasks;
          done = count_of sc ''done''
      in \<lparr>total_count = n, completed = done, completionRate = completion_rate done n, overdue = od,
          statusCounts = sc, priorityCounts = pc, assigneeCounts = ac, analytics_tasks = tasks\<rparr>)"

subsection \<open>Updating a task\<close>

text \<open>The fields of an update; \<^term>\<open>None\<close> is a field that is not given
  (\<^verbatim>\<open>undefined\<close>), and \<^verbatim>\<open>null\<close> is a value.\<close>

record updates =
  upd_title :: "string option"
  upd_description :: "string option"
  upd_status :: "string option"
  upd_priority :: "string option"
  upd_due_date :: "jsval option"
  upd_my_day :: "jsval option"
  upd_estimated_hours :: "jsval option"
  upd_actual_hours :: "jsval option"
  upd_tags :: "jsval option"
  upd_parent_task :: "jsval option"
  upd_assignee :: "string option option"
  upd_sprint_id :: "nat option option"

text \<open>The body of the PATCH request; in \<^verbatim>\<open>labels\<close>, \<^term>\<open>None\<close> is an element
  that is no string (\<^verbatim>\<open>undefined\<close>, or a member that the label table
  inherits), which the request prints as \<^verbatim>\<open>null\<close>.\<close>

record payload =
  payload_title :: string
  payload_body :: string
  payload_labels :: "string option list"
  payload_state :: "string option"
  payload_state_reason :: "string option"
  payload_assignees :: "string list option"
  payload_milestone :: "nat option option"

text \<open>\<^verbatim>\<open>if (updates.status)\<close>: given and not empty.\<close>

fun given :: "string option \<Rightarrow> bool" where
  "given None = False"
| "given (Some s) = (s \<noteq> [])"

text \<open>\<^verbatim>\<open>(current.labels || []).map(l => l.name)\<close>\<close>

fun name_field :: "label \<Rightarrow> string option" where
  "name_field (LabelString s) = None"
| "name_field (LabelObject n) = Some n"

text \<open>\<^verbatim>\<open>ls.filter(l => !Object.values(T).includes(l))\<close> followed by
  \<^verbatim>\<open>ls.push(T[k])\<close>\<close>

definition replace_label :: "(string \<times> string) list \<Rightarrow> string \<Rightarrow> string option list \<Rightarrow> string option list" where
  "replace_label T k ls =
     filter (\<lambda>l. case l of None \<Rightarrow> True | Some n \<Rightarrow> n \<notin> set (map snd T)) ls @ [map_of T k]"

text \<open>\<^verbatim>\<open>if (updates.f !== undefined) meta.f = updates.f\<close>\<close>

fun set_if_given :: "string \<Rightarrow> jsval option \<Rightarrow> jsobject \<Rightarrow> jsobject" where
  "set_if_given k None m = m"
| "set_if_given k (Some v) m = set_prop k v m"

text \<open>Steps 1 to 4 of \<^verbatim>\<open>updateTask\<close>: from the issue read and the update to the
  request body.\<close>

definition updateTask_payload :: "js_runtime \<Rightarrow> issue \<Rightarrow> updates \<Rightarrow> payload" where
  "updateTask_payload env current u =
     (let fm = parseYamlFrontMatter env (str_or (issue_body current) []);
          l0 = map name_field (issue_labels current);
          l1 = (if given (upd_status u) then replace_label STATUS_LABELS (the (upd_status u)) l0 else l0);
          l2 = (if given (upd_priority u) then replace_label PRIORITY_LABELS (the (upd_priority u)) l1 else l1);
          m0 = (if given (upd_priority u) then set_prop ''priority'' (JStr (the (upd_priority u))) (meta fm)
                else meta fm);
          m1 = set_if_given ''due_date'' (upd_due_date u) m0;
          m2 = set_if_given ''my_day'' (upd_my_day u) m1;
          m3 = set_if_given ''estimated_hours'' (upd_estimated_hours u) m2;
          m4 = set_if_given ''actual_hours'' (upd_actual_hours u) m3;
          m5 = (case upd_tags u of None \<Rightarrow> m4 | Some v \<Rightarrow> if truthy v then set_prop ''tags'' v m4 else m4);
          m6 = set_if_given ''parent_task'' (upd_parent_task u) m5;
          text = buildYamlFrontMatter env m6
                   (case upd_description u of None \<Rightarrow> description fm | Some d \<Rightarrow> d);
          closing = (upd_status u = Some ''done'');
          reopening = (\<not> closing \<and> given (upd_status u) \<and> upd_status u \<noteq> Some ''done''
                       \<and> issue_state current = ''closed'')
      in \<lparr>payload_title = str_or (upd_title u) (issue_title current),
          payload_body = text,
          payload_labels = l2,
          payload_state = (if closing then Some ''closed'' else if reopening then Some ''open'' else None),
          payload_state_reason = (if closing then Some ''completed'' else None),
          payload_assignees =
            (case upd_assignee u of
               None \<Rightarrow> None
             | Some a \<Rightarrow> Some (if given a then [the a] else [])),
          payload_milestone = upd_sprint_id u\<rparr>)"

definition no_updates :: updates where
  "no_updates =
     \<lparr>upd_title = None, upd_description = None, upd_status = None, upd_priority = None,
      upd_due_date = None, upd_my_day = None, upd_estimated_hours = None,
      upd_actual_hours = None, upd_tags = None, upd_parent_task = None,
      upd_assignee = None, upd_sprint_id = None\<rparr>"

subsection \<open>The remote repository and the repository operations\<close>

text \<open>
  Modelled from the spec: the issue store behind the \<^verbatim>\<open>gh\<close> commands (the
  tracker and the \<^verbatim>\<open>gh\<close> binary are outside the repository), after the issue
  store port of the specification. The store holds the issues of the repository
  in the order in which a listing returns them, each open or closed with the
  reason of its closing, and the milestones; \<^verbatim>\<open>state_text\<close> is the spelling of
  the state in the JSON that the transport prints.
\<close>

record remote_issue =
  remote_number :: nat
  remote_title :: string
  remote_body :: string
  remote_closed :: bool
  remote_state_reason :: "string option"
  remote_labels :: "string list"
  remote_assignees :: "string list"
  remote_milestone :: "(nat \<times> string) option"
  remote_createdAt :: string
  remote_updatedAt :: string
  remote_url :: string

record remote =
  remote_issues :: "remote_issue list"
  remote_milestones :: "(nat \<times> string) list"
  state_text :: "bool \<Rightarrow> string"

text \<open>Modelled from the spec: the JSON of one issue (\<^verbatim>\<open>getIssue\<close>,
  \<^verbatim>\<open>listIssues\<close>) with the fields of \<^verbatim>\<open>ISSUE_FIELDS\<close>.\<close>

definition gh_json :: "remote \<Rightarrow> remote_issue \<Rightarrow> issue" where
  "gh_json R r =
     \<lparr>issue_number = remote_number r, issue_title = remote_title r,
      issue_body = Some (remote_body r), issue_state = state_text R (remote_closed r),
      issue_labels = map LabelObject (remote_labels r),
      issue_assignees = remote_assignees r, issue_assignee = None,
      issue_milestone = remote_milestone r,
      issue_createdAt = Some (remote_createdAt r), issue_created_at = None,
      issue_updatedAt = Some (remote_updatedAt r), issue_updated_at = None,
      issue_html_url = None, issue_url = Some (remote_url r)\<rparr>"

text \<open>Modelled from the spec: \<^verbatim>\<open>getIssue(id)\<close>, reached by
  \<^verbatim>\<open>gh issue view\<close>; a number that is not there fails.\<close>

definition gh_issue_view :: "remote \<Rightarrow> nat \<Rightarrow> error + issue" where
  "gh_issue_view R n =
     (case find (\<lambda>r. remote_number r = n) (remote_issues R) of
        None \<Rightarrow> Inl CommandFailed
      | Some r \<Rightarrow> Inr (gh_json R r))"

text \<open>Modelled from the spec: \<^verbatim>\<open>closeIssue(id, reason)\<close>, reached by
  \<^verbatim>\<open>gh issue close --reason\<close>: the issue becomes closed with the reason, and
  nothing else changes.\<close>

definition gh_issue_close :: "remote \<Rightarrow> nat \<Rightarrow> string \<Rightarrow> error + remote" where
  "gh_issue_close R n reason =
     (if \<exists>r \<in> set (remote_issues R). remote_number r = n then
        Inr (R\<lparr>remote_issues :=
               map (\<lambda>r. if remote_number r = n
                         then r\<lparr>remote_closed := True, remote_state_reason := Some reason\<rparr>
                         else r)
                 (remote_issues R)\<rparr>)
      else Inl CommandFailed)"

text \<open>Modelled from the spec: \<^verbatim>\<open>listIssues(filterSpec)\<close>, reached by
  \<^verbatim>\<open>gh issue list\<close> with its \<^verbatim>\<open>--state\<close>, \<^verbatim>\<open>--label\<close>, \<^verbatim>\<open>--assignee\<close>,
  \<^verbatim>\<open>--milestone\<close> and \<^verbatim>\<open>--limit\<close> options: the first issues, up to the
  limit, that are in the state and have every label, the assignee and the
  milestone asked for.\<close>

record list_query =
  query_state :: string
  query_labels :: "string list"
  query_assignee :: "string option"
  query_milestone :: "string option"
  query_limit :: nat

definition query_matches :: "list_query \<Rightarrow> remote_issue \<Rightarrow> bool" where
  "query_matches q r =
     ((query_state q = ''all'' \<or> (query_state q = ''closed'') = remote_closed r)
      \<and> (\<forall>l \<in> set (query_labels q). l \<in> set (remote_labels r))
      \<and> (case query_assignee q of None \<Rightarrow> True | Some a \<Rightarrow> a \<in> set (remote_assignees r))
      \<and> (case query_milestone q of
            None \<Rightarrow> True
          | Some t \<Rightarrow> (case remote_milestone r of None \<Rightarrow> False | Some (n, t') \<Rightarrow> t' = t)))"

definition gh_issue_list :: "remote \<Rightarrow> list_query \<Rightarrow> error + issue list" where
  "gh_issue_list R q =
     (if query_state q \<in> {''open'', ''closed'', ''all''}
      then Inr (map (gh_json R) (take (query_limit q) (filter (query_matches q) (remote_issues R))))
      else Inl CommandFailed)"

text \<open>
  \<^verbatim>\<open>T[k]\<close> as an argument of the \<^verbatim>\<open>gh\<close> command, where the process spawn
  converts it to a string: the label of a key of the table, the text of a
  member that the table inherits, and \<^verbatim>\<open>undefined\<close> for any other name.
\<close>

definition label_argument :: "js_runtime \<Rightarrow> (string \<times> string) list \<Rightarrow> string \<Rightarrow> string" where
  "label_argument env T k =
     (case map_of T k of
        Some l \<Rightarrow> l
      | None \<Rightarrow> (case js_inherited env k of Some s \<Rightarrow> s | None \<Rightarrow> ''undefined''))"

text \<open>
  The arguments that \<^verbatim>\<open>listTasks\<close> builds. The milestone title is looked up
  first; a milestone that is not found drops the filter.
\<close>

definition listTasks_query :: "js_runtime \<Rightarrow> remote \<Rightarrow> filters \<Rightarrow> list_query" where
  "listTasks_query env R fs =
     (let state = (if filter_status fs = Some ''done'' then ''closed''
                   else if filter_include_done fs then ''all'' else ''open'');
          status_label = (if given (filter_status fs) \<and> filter_status fs \<noteq> Some ''done''
                          then [label_argument env STATUS_LABELS (the (filter_status fs))] else []);
          priority_label = (if given (filter_priority fs)
                            then [label_argument env PRIORITY_LABELS (the (filter_priority fs))] else []);
          assignee = (if given (filter_assignee fs) then filter_assignee fs else None);
          milestone = (case filter_sprint_id fs of
                         None \<Rightarrow> None
                       | Some n \<Rightarrow> if n = 0 then None
                                   else (case map_of (remote_milestones R) n of
                                           None \<Rightarrow> None
                                         | Some t \<Rightarrow> if t = [] then None else Some t))
      in \<lparr>query_state = state, query_labels = status_label @ priority_label,
          query_assignee = assignee, query_milestone = milestone, query_limit = 100\<rparr>)"

definition listTasks :: "js_runtime \<Rightarrow> remote \<Rightarrow> filters \<Rightarrow> error + task list" where
  "listTasks env R fs =
     (case gh_issue_list R (listTasks_query env R fs) of
        Inl e \<Rightarrow> Inl e
      | Inr issues \<Rightarrow> listTasks_local env fs issues)"

definition getTask :: "js_runtime \<Rightarrow> remote \<Rightarrow> nat \<Rightarrow> error + task" where
  "getTask env R n =
     (case gh_issue_view R n of Inl e \<Rightarrow> Inl e | Inr i \<Rightarrow> Inr (issueToTask env i))"

text \<open>\<^verbatim>\<open>gh('issue', 'close', String(taskId), '--reason', 'not planned', '-R', slug)\<close>\<close>

definition deleteTask :: "remote \<Rightarrow> nat \<Rightarrow> error + remote" where
  "deleteTask R n = gh_issue_close R n ''not planned''"

text \<open>Steps 1 to 4 of \<^verbatim>\<open>updateTask\<close> on the repository: the issue is read with
  \<^verbatim>\<open>gh issue view\<close>, and the request body is built from what was read.\<close>

definition updateTask_request :: "js_runtime \<Rightarrow> remote \<Rightarrow> nat \<Rightarrow> updates \<Rightarrow> error + payload" where
  "updateTask_request env R n u =
     (case gh_issue_view R n of
        Inl e \<Rightarrow> Inl e
      | Inr current \<Rightarrow> Inr (updateTask_payload env current u))"

text \<open>The views on the repository: each lists first.\<close>

definition getBoardData :: "js_runtime \<Rightarrow> remote \<Rightarrow> filters \<Rightarrow> error + (string \<times> column) list" where
  "getBoardData env R fs =
     (case listTasks env R (fs\<lparr>filter_include_done := True\<rparr>) of
        Inl e \<Rightarrow> Inl e
      | Inr tasks \<Rightarrow> Inr (getBoardData_local tasks))"

definition getMyDayTasks :: "js_runtime \<Rightarrow> string \<Rightarrow> remote \<Rightarrow> error + my_day_view" where
  "getMyDayTasks env today R =
     (case listTasks env R
             \<lparr>filter_status = None, filter_priority = None, filter_assignee = None,
              filter_sprint_id = None, filter_my_day = False, filter_include_done = False\<rparr> of
        Inl e \<Rightarrow> Inl e
      | Inr tasks \<Rightarrow> Inr (getMyDayTasks_local env today tasks))"

definition getAnalytics :: "js_runtime \<Rightarrow> string \<Rightarrow> remote \<Rightarrow> nat option \<Rightarrow> error + analytics" where
  "getAnalytics env today R sprintId =
     (case listTasks env R
             \<lparr>filter_status = None, filter_priority = None, filter_assignee = None,
              filter_sprint_id = (case sprintId of None \<Rightarrow> None | Some n \<Rightarrow> if n = 0 then None else Some n),
              filter_my_day = False, filter_include_done = True\<rparr> of
        Inl e \<Rightarrow> Inl e
      | Inr tasks \<Rightarrow> Inr (getAnalytics_local env today tasks))"

subsection \<open>A runtime for worked examples\<close>

text \<open>
  The examples below run on this instance of the runtime. \<^verbatim>\<open>Number\<close> reads the
  empty string as 0 and a decimal integer literal of at most 15 digits as its
  value, and is NaN elsewhere; number to string conversion prints an integer in
  decimal; \<^verbatim>\<open>localeCompare\<close> is the order of the code units, which is what
  collation gives on ISO dates; the inherited members are those of
  \<^verbatim>\<open>Object.prototype\<close>, functions in the rendering of V8. It agrees with the
  platform on every string and number that the examples use.
\<close>

definition sample_Number :: "string \<Rightarrow> jsnum" where
  "sample_Number s =
     (if length s \<le> 15 \<and> (\<forall>c \<in> set s. is_digit c) then Finite (of_int (digits_value s)) else NaN)"

fun nat_digits :: "nat \<Rightarrow> string" where
  "nat_digits n =
     (if n < 10 then [char_of (48 + n)] else nat_digits (n div 10) @ [char_of (48 + n mod 10)])"

fun sample_String :: "jsnum \<Rightarrow> string" where
  "sample_String NaN = ''NaN''"
| "sample_String PosInfinity = ''Infinity''"
| "sample_String NegInfinity = ''-Infinity''"
| "sample_String (Finite r) =
     (if r < 0 then ''-'' @ nat_digits (nat (- \<lfloor>r\<rfloor>)) else nat_digits (nat \<lfloor>r\<rfloor>))"

definition code_unit_compare :: "string \<Rightarrow> string \<Rightarrow> int" where
  "code_unit_compare a b = (if a < b then - 1 else if a = b then 0 else 1)"

definition sample_inherited :: "string \<Rightarrow> string option" where
  "sample_inherited k =
     (if k = ''__proto__'' then Some ''[object Object]''
      else if k = ''constructor'' then Some ''function Object() { [native code] }''
      else if k \<in> set [''toString'', ''toLocaleString'', ''valueOf'', ''hasOwnProperty'',
                        ''isPrototypeOf'', ''propertyIsEnumerable'', ''__defineGetter__'',
                        ''__defineSetter__'', ''__lookupGetter__'', ''__lookupSetter__'']
        then Some (''function '' @ k @ ''() { [native code] }'')
      else None)"

definition sample_runtime :: js_runtime where
  "sample_runtime =
     \<lparr>js_Number = sample_Number, js_String = sample_String, js_localeCompare = code_unit_compare,
      js_inherited = sample_inherited\<rparr>"

subsection \<open>Example data\<close>

text \<open>An open issue with the given number, label objects and body, and a task with
  the given number, priority and due date (a string, or none: \<^verbatim>\<open>null\<close>); every
  other field is empty.\<close>

definition plain_issue :: "nat \<Rightarrow> string list \<Rightarrow> string \<Rightarrow> issue" where
  "plain_issue n names text =
     \<lparr>issue_number = n, issue_title = ''Fix bug'', issue_body = Some text,
      issue_state = ''open'', issue_labels = map LabelObject names,
      issue_assignees = [], issue_assignee = None, issue_milestone = None,
      issue_createdAt = None, issue_created_at = None,
      issue_updatedAt = None, issue_updated_at = None,
      issue_html_url = None, issue_url = None\<rparr>"

definition plain_task :: "nat \<Rightarrow> string \<Rightarrow> string option \<Rightarrow> task" where
  "plain_task n p d =
     \<lparr>task_id = n, title = ''Fix bug'', body = [], status = ''todo'', priority = p,
      due_date = (case d of None \<Rightarrow> JNull | Some s \<Rightarrow> JStr s),
      labels = [], assignee = None, sprint_id = None, sprint_name = None,
      my_day = False, estimated_hours = JNum (Finite 0), actual_hours = JNum (Finite 0),
      tags = JArr [], parent_task = JNull, created_at = [], updated_at = [], html_url = []\<rparr>"

definition no_filters :: filters where
  "no_filters =
     \<lparr>filter_status = None, filter_priority = None, filter_assignee = None,
      filter_sprint_id = None, filter_my_day = False, filter_include_done = False\<rparr>"

text \<open>An issue as \<^verbatim>\<open>createTask\<close> writes it: in progress, high priority, due on
  2026-02-01, not flagged for My Day.\<close>

definition overdue_in_progress_issue :: issue where
  "overdue_in_progress_issue =
     plain_issue 5 [''tp:in-progress'', ''tp:high'']
       (buildYamlFrontMatter sample_runtime
          [(''priority'', JStr ''high''), (''due_date'', JStr ''2026-02-01''),
           (''estimated_hours'', JNum (Finite 0)), (''actual_hours'', JNum (Finite 0)),
           (''tags'', JArr []), (''my_day'', JBool False), (''parent_task'', JNull)]
          ''Ship it'')"

text \<open>An issue as \<^verbatim>\<open>createTask\<close> writes it for \<^verbatim>\<open>tp add --priority high --due d\<close>:
  to do, high priority, the due date written as it was given.\<close>

definition due_issue :: "nat \<Rightarrow> string \<Rightarrow> issue" where
  "due_issue n d =
     plain_issue n [''tp:todo'', ''tp:high'']
       (buildYamlFrontMatter sample_runtime
          [(''priority'', JStr ''high''), (''due_date'', JStr d),
           (''estimated_hours'', JNum (Finite 0)), (''actual_hours'', JNum (Finite 0)),
           (''tags'', JArr []), (''my_day'', JBool False), (''parent_task'', JNull)]
          [])"

text \<open>A repository with two open planner issues and one issue of another kind.\<close>

definition plain_remote_issue :: "nat \<Rightarrow> string list \<Rightarrow> remote_issue" where
  "plain_remote_issue n names =
     \<lparr>remote_number = n, remote_title = ''Fix bug'', remote_body = ''notes'',
      remote_closed = False, remote_state_reason = None, remote_labels = names,
      remote_assignees = [], remote_milestone = None,
      remote_createdAt = ''2026-01-01T00:00:00Z'', remote_updatedAt = ''2026-01-01T00:00:00Z'',
      remote_url = []\<rparr>"

definition sample_remote :: remote where
  "sample_remote =
     \<lparr>remote_issues =
        [plain_remote_issue 3 [''tp:todo'', ''tp:high''], plain_remote_issue 2 [''question''],
         plain_remote_issue 1 [''tp:in-progress'', ''tp:low'']],
      remote_milestones = [],
      state_text = (\<lambda>closed. if closed then ''CLOSED'' else ''OPEN'')\<rparr>"

text \<open>A repository whose issue 7 was completed: the update to \<^verbatim>\<open>done\<close> left it
  with the label \<^verbatim>\<open>tp:done\<close> and the body that \<^verbatim>\<open>updateTask\<close> writes,
  closed, with the reason \<^verbatim>\<open>completed\<close>.\<close>

definition completed_remote :: remote where
  "completed_remote =
     \<lparr>remote_issues =
        [(plain_remote_issue 7 [''tp:high'', ''tp:done''])
           \<lparr>remote_body :=
              buildYamlFrontMatter sample_runtime
                [(''priority'', JStr ''high''), (''due_date'', JNull),
                 (''estimated_hours'', JNum (Finite 0)), (''actual_hours'', JNum (Finite 0)),
                 (''tags'', JNull), (''my_day'', JBool False), (''parent_task'', JNull)]
                ''Fix the login bug'',
            remote_closed := True, remote_state_reason := Some ''completed''\<rparr>],
      remote_milestones = [],
      state_text = (\<lambda>closed. if closed then ''CLOSED'' else ''OPEN'')\<rparr>"

section \<open>Properties\<close>

subsection \<open>Label helpers\<close>

lemma first_present_none:
  "\<forall>e \<in> set es. snd e \<notin> set names \<Longrightarrow> first_present es names dflt = dflt"
  by (induction es names dflt rule: first_present.induct) auto

lemma first_present_first:
  assumes "l \<in> set names" and "\<forall>e \<in> set pre. snd e \<notin> set names"
  shows "first_present (pre @ (k, l) # post) names dflt = k"
  using assms by (induction pre) auto

lemma first_present_range:
  "first_present es names dflt \<in> insert dflt (fst ` set es)"
  by (induction es names dflt rule: first_present.induct) auto

lemma first_present_only:
  assumes "(k, l) \<in> set es" and "\<forall>e \<in> set es. snd e \<in> set names \<longleftrightarrow> e = (k, l)"
  shows "first_present es names dflt = k"
proof -
  from assms(1) obtain pre post where es: "es = pre @ (k, l) # post" and first: "(k, l) \<notin> set pre"
    by (meson split_list_first)
  have "l \<in> set names" using assms by auto
  moreover have "\<forall>e \<in> set pre. snd e \<notin> set names"
    using assms(2) first unfolding es by auto
  ultimately show ?thesis unfolding es by (rule first_present_first)
qed

text \<open>
  C6. Whatever the label set: the status (priority) returned is that of the first
  entry, in declaration order, whose label is present; it is \<^verbatim>\<open>todo\<close>
  (\<^verbatim>\<open>medium\<close>) when no status (priority) label is present; and when exactly one
  status (priority) label is present it is the status (priority) of that label.
  Both functions are total: several labels at once are no error.
\<close>

theorem label_recovery:
  "(STATUS_LABELS = pre @ (s, l) # post \<and> l \<in> set (labelNames ls)
      \<and> (\<forall>e \<in> set pre. snd e \<notin> set (labelNames ls))
      \<longrightarrow> getStatusFromLabels ls = s)
   \<and> ((\<forall>e \<in> set STATUS_LABELS. snd e \<notin> set (labelNames ls))
      \<longrightarrow> getStatusFromLabels ls = ''todo'')
   \<and> ((s1, l1) \<in> set STATUS_LABELS
      \<and> (\<forall>e \<in> set STATUS_LABELS. snd e \<in> set (labelNames ls) \<longleftrightarrow> e = (s1, l1))
      \<longrightarrow> getStatusFromLabels ls = s1)
   \<and> (PRIORITY_LABELS = pre' @ (p, l') # post' \<and> l' \<in> set (labelNames ls)
      \<and> (\<forall>e \<in> set pre'. snd e \<notin> set (labelNames ls))
      \<longrightarrow> getPriorityFromLabels ls = p)
   \<and> ((\<forall>e \<in> set PRIORITY_LABELS. snd e \<notin> set (labelNames ls))
      \<longrightarrow> getPriorityFromLabels ls = ''medium'')
   \<and> ((p1, l1') \<in> set PRIORITY_LABELS
      \<and> (\<forall>e \<in> set PRIORITY_LABELS. snd e \<in> set (labelNames ls) \<longleftrightarrow> e = (p1, l1'))
      \<longrightarrow> getPriorityFromLabels ls = p1)"
proof (intro conjI impI; (elim conjE)?)
  assume eq: "STATUS_LABELS = pre @ (s, l) # post" and "l \<in> set (labelNames ls)"
    and "\<forall>e \<in> set pre. snd e \<notin> set (labelNames ls)"
  then show "getStatusFromLabels ls = s"
    unfolding getStatusFromLabels_def eq by (intro first_present_first)
next
  assume "\<forall>e \<in> set STATUS_LABELS. snd e \<notin> set (labelNames ls)"
  then show "getStatusFromLabels ls = ''todo''"
    unfolding getStatusFromLabels_def by (rule first_present_none)
next
  assume "(s1, l1) \<in> set STATUS_LABELS"
    "\<forall>e \<in> set STATUS_LABELS. snd e \<in> set (labelNames ls) \<longleftrightarrow> e = (s1, l1)"
  then show "getStatusFromLabels ls = s1"
    unfolding getStatusFromLabels_def by (rule first_present_only)
next
  assume eq: "PRIORITY_LABELS = pre' @ (p, l') # post'" and "l' \<in> set (labelNames ls)"
    and "\<forall>e \<in> set pre'. snd e \<notin> set (labelNames ls)"
  then show "getPriorityFromLabels ls = p"
    unfolding getPriorityFromLabels_def eq by (intro first_present_first)
next
  assume "\<forall>e \<in> set PRIORITY_LABELS. snd e \<notin> set (labelNames ls)"
  then show "getPriorityFromLabels ls = ''medium''"
    unfolding getPriorityFromLabels_def by (rule first_present_none)
next
  assume "(p1, l1') \<in> set PRIORITY_LABELS"
    "\<forall>e \<in> set PRIORITY_LABELS. snd e \<in> set (labelNames ls) \<longleftrightarrow> e = (p1, l1')"
  then show "getPriorityFromLabels ls = p1"
    unfolding getPriorityFromLabels_def by (rule first_present_only)
qed


theorem label_recovery_witness:
  "getStatusFromLabels [LabelObject ''bug'', LabelObject ''tp:done'', LabelString ''tp:high''] = ''done''
   \<and> getPriorityFromLabels [LabelObject ''bug'', LabelObject ''tp:done'', LabelString ''tp:high''] = ''high''
   \<and> getStatusFromLabels [LabelObject ''bug''] = ''todo''
   \<and> getPriorityFromLabels [LabelObject ''bug''] = ''medium''
   \<and> getStatusFromLabels
        [LabelObject ''tp:blocked'', LabelObject ''tp:low'', LabelObject ''tp:in-progress'',
         LabelObject ''tp:urgent''] = ''in-progress''
   \<and> getPriorityFromLabels
        [LabelObject ''tp:blocked'', LabelObject ''tp:low'', LabelObject ''tp:in-progress'',
         LabelObject ''tp:urgent''] = ''urgent''"
proof -
  let ?L1 = "[LabelObject ''bug'', LabelObject ''tp:done'', LabelString ''tp:high'']"
  let ?L2 = "[LabelObject ''bug'']"
  let ?L3 = "[LabelObject ''tp:blocked'', LabelObject ''tp:low'', LabelObject ''tp:in-progress'',
              LabelObject ''tp:urgent'']"
  have a: "getStatusFromLabels ?L1 = ''done'' \<and> getPriorityFromLabels ?L1 = ''high''"
    using label_recovery [where ls = ?L1 and ?s1.0 = "''done''" and ?l1.0 = "''tp:done''"
        and ?p1.0 = "''high''" and ?l1' = "''tp:high''"]
    by (simp add: STATUS_LABELS_def PRIORITY_LABELS_def labelNames_def)
  have b: "getStatusFromLabels ?L2 = ''todo'' \<and> getPriorityFromLabels ?L2 = ''medium''"
    using label_recovery [where ls = ?L2]
    by (simp add: STATUS_LABELS_def PRIORITY_LABELS_def labelNames_def)
  have c: "getStatusFromLabels ?L3 = ''in-progress'' \<and> getPriorityFromLabels ?L3 = ''urgent''"
    using label_recovery [where ls = ?L3 and pre = "[(''todo'', ''tp:todo'')]"
        and s = "''in-progress''" and l = "''tp:in-progress''"
        and post = "[(''done'', ''tp:done''), (''blocked'', ''tp:blocked'')]"
        and pre' = "[]" and p = "''urgent''" and l' = "''tp:urgent''"
        and post' = "[(''high'', ''tp:high''), (''medium'', ''tp:medium''), (''low'', ''tp:low'')]"]
    by (simp add: STATUS_LABELS_def PRIORITY_LABELS_def labelNames_def)
  from a b c show ?thesis by blast
qed

text \<open>
  C4, as the code has it. The user labels are the label names that do not begin
  with \<^verbatim>\<open>tp:\<close>, each as often as it occurs; none of the eight system names is
  among them. A name that carries the prefix without being a system name is
  dropped as well.
\<close>

theorem user_labels_by_prefix:
  "set (getUserLabels ls) = {n \<in> set (labelNames ls). \<not> startsWith n ''tp:''}
   \<and> (\<forall>n \<in> set system_label_names. n \<notin> set (getUserLabels ls))
   \<and> (\<forall>n. \<not> startsWith n ''tp:''
        \<longrightarrow> count_list (getUserLabels ls) n = count_list (labelNames ls) n)"
proof -
  have sys: "\<forall>n \<in> set system_label_names. startsWith n ''tp:''"
    by (simp add: system_label_names_def STATUS_LABELS_def PRIORITY_LABELS_def startsWith_def)
  have cnt: "count_list (filter P xs) n = count_list xs n" if "P n" for P xs and n :: string
    using that by (induction xs) auto
  show ?thesis
    using sys by (auto simp: getUserLabels_def cnt)
qed

theorem user_labels_by_prefix_witness:
  "set (getUserLabels [LabelObject ''tp:todo'', LabelObject ''bug'', LabelObject ''tp:custom''])
     = {''bug''}
   \<and> ''tp:todo'' \<notin> set (getUserLabels
        [LabelObject ''tp:todo'', LabelObject ''bug'', LabelObject ''tp:custom''])
   \<and> count_list (getUserLabels
        [LabelObject ''tp:todo'', LabelObject ''bug'', LabelObject ''tp:custom'']) ''bug'' = 1"
proof -
  let ?L = "[LabelObject ''tp:todo'', LabelObject ''bug'', LabelObject ''tp:custom'']"
  have names: "labelNames ?L = [''tp:todo'', ''bug'', ''tp:custom'']"
    by (simp add: labelNames_def)
  have sys: "''tp:todo'' \<in> set system_label_names"
    by (simp add: system_label_names_def STATUS_LABELS_def)
  have pre: "startsWith ''tp:todo'' ''tp:''" "startsWith ''tp:custom'' ''tp:''" "\<not> startsWith ''bug'' ''tp:''"
    by (simp_all add: startsWith_def)
  from user_labels_by_prefix [of ?L]
  have 1: "set (getUserLabels ?L) = {n \<in> set (labelNames ?L). \<not> startsWith n ''tp:''}"
    and 2: "\<forall>n \<in> set system_label_names. n \<notin> set (getUserLabels ?L)"
    and 3: "\<forall>n. \<not> startsWith n ''tp:'' \<longrightarrow> count_list (getUserLabels ?L) n = count_list (labelNames ?L) n"
    by blast+
  have "set (getUserLabels ?L) = {''bug''}"
    unfolding 1 names using pre by auto
  moreover have "''tp:todo'' \<notin> set (getUserLabels ?L)"
    using 2 sys by blast
  moreover have "count_list (getUserLabels ?L) ''bug'' = 1"
    using 3 pre(3) unfolding names by simp
  ultimately show ?thesis by blast
qed

text \<open>The label \<^verbatim>\<open>tp:custom\<close> is none of the eight system names, and is no user
  label either.\<close>

theorem user_labels_counterexample:
  "''tp:custom'' \<notin> set system_label_names \<and> getUserLabels [LabelObject ''tp:custom''] = []"
  by (simp add: system_label_names_def STATUS_LABELS_def PRIORITY_LABELS_def getUserLabels_def
      labelNames_def startsWith_def)

subsection \<open>The canonical sort\<close>

lemma insert_by_total:
  assumes "\<forall>a \<in> set rs. \<exists>c. cmp p a = Inr c \<and> (c < 0 \<longleftrightarrow> f p < f a)"
  shows "insert_by cmp p rs
    = Inr (takeWhile (\<lambda>a. f p < f a) rs @ p # dropWhile (\<lambda>a. f p < f a) rs)"
  using assms by (induction rs) auto

lemma placed_sorted:
  fixes f :: "'a \<Rightarrow> 'k::linorder"
  assumes "sorted_wrt (\<lambda>a b. f b \<le> f a) rs"
  shows "sorted_wrt (\<lambda>a b. f b \<le> f a)
    (takeWhile (\<lambda>a. f p < f a) rs @ p # dropWhile (\<lambda>a. f p < f a) rs)"
  using assms
proof (induction rs)
  case Nil
  show ?case by simp
next
  case (Cons a rs)
  show ?case
  proof (cases "f p < f a")
    case True
    have "\<forall>y \<in> set (takeWhile (\<lambda>a. f p < f a) rs @ p # dropWhile (\<lambda>a. f p < f a) rs). f y \<le> f a"
      using Cons.prems True by (auto dest: set_takeWhileD set_dropWhileD)
    with Cons True show ?thesis by simp
  next
    case False
    then have "\<forall>y \<in> set (a # rs). f y \<le> f p"
      using Cons.prems by fastforce
    with Cons.prems False show ?thesis by simp
  qed
qed

lemma placed_filter:
  assumes "Q p \<Longrightarrow> \<forall>a \<in> set (takeWhile P rs). \<not> Q a"
  shows "filter Q (rev (takeWhile P rs @ p # dropWhile P rs))
    = filter Q (rev rs) @ (if Q p then [p] else [])"
proof -
  have split: "filter Q (rev rs) = filter Q (rev (dropWhile P rs)) @ filter Q (rev (takeWhile P rs))"
    by (metis filter_append rev_append takeWhile_dropWhile_id)
  show ?thesis
  proof (cases "Q p")
    case True
    with assms have "filter Q (rev (takeWhile P rs)) = []"
      by (simp add: filter_empty_conv)
    with True split show ?thesis by simp
  next
    case False
    with split show ?thesis by simp
  qed
qed

lemma sort_from_sort_key:
  fixes f :: "'a \<Rightarrow> 'k::linorder"
  assumes "\<forall>x \<in> set xs \<union> set rs. \<forall>y \<in> set xs \<union> set rs. \<exists>c. cmp x y = Inr c \<and> (c < 0 \<longleftrightarrow> f x < f y)"
    and "mset rs = mset ds"
    and "sorted_wrt (\<lambda>a b. f b \<le> f a) rs"
    and "\<forall>k. filter (\<lambda>y. f y = k) (rev rs) = filter (\<lambda>y. f y = k) ds"
  shows "sort_from cmp xs rs = Inr (sort_key f (ds @ xs))"
  using assms
proof (induction xs arbitrary: rs ds)
  case Nil
  have "sort_key f ds = rev rs"
  proof (rule properties_for_sort_key)
    show "mset (rev rs) = mset ds" using Nil.prems(2) by simp
    show "filter (\<lambda>x. f k = f x) (rev rs) = filter (\<lambda>x. f k = f x) ds" for k
      using Nil.prems(4) by (simp add: eq_commute [of "f k"])
    show "sorted (map f (rev rs))"
      using Nil.prems(3) by (simp add: sorted_map sorted_wrt_rev)
  qed
  then show ?case by simp
next
  case (Cons x xs)
  let ?rs = "takeWhile (\<lambda>a. f x < f a) rs @ x # dropWhile (\<lambda>a. f x < f a) rs"
  have ins: "insert_by cmp x rs = Inr ?rs"
    by (rule insert_by_total) (use Cons.prems(1) in auto)
  have set: "set ?rs = insert x (set rs)"
    by (metis list.simps(15) set_append takeWhile_dropWhile_id Un_insert_right)
  have "sort_from cmp xs ?rs = Inr (sort_key f ((ds @ [x]) @ xs))"
  proof (rule Cons.IH)
    show "\<forall>a \<in> set xs \<union> set ?rs. \<forall>b \<in> set xs \<union> set ?rs.
        \<exists>c. cmp a b = Inr c \<and> (c < 0 \<longleftrightarrow> f a < f b)"
      unfolding set using Cons.prems(1) by auto
    show "mset ?rs = mset (ds @ [x])"
      using Cons.prems(2) by (metis mset_append mset.simps(2) takeWhile_dropWhile_id union_mset_add_mset_right add.right_neutral mset.simps(1) append_Cons append_Nil)
    show "sorted_wrt (\<lambda>a b. f b \<le> f a) ?rs"
      using Cons.prems(3) by (rule placed_sorted)
    show "\<forall>k. filter (\<lambda>y. f y = k) (rev ?rs) = filter (\<lambda>y. f y = k) (ds @ [x])"
    proof
      fix k
      have "filter (\<lambda>y. f y = k) (rev ?rs)
          = filter (\<lambda>y. f y = k) (rev rs) @ (if f x = k then [x] else [])"
        by (rule placed_filter) (auto dest: set_takeWhileD)
      then show "filter (\<lambda>y. f y = k) (rev ?rs) = filter (\<lambda>y. f y = k) (ds @ [x])"
        using Cons.prems(4) by simp
    qed
  qed
  with ins show ?case by simp
qed

lemma Array_sort_sort_key:
  fixes f :: "'a \<Rightarrow> 'k::linorder"
  assumes "\<forall>x \<in> set xs. \<forall>y \<in> set xs. \<exists>c. cmp x y = Inr c \<and> (c < 0 \<longleftrightarrow> f x < f y)"
  shows "Array_sort cmp xs = Inr (sort_key f xs)"
  unfolding Array_sort_def using sort_from_sort_key [of xs "[]" cmp f "[]"] assms by simp

lemma insert_by_Inr: "insert_by cmp p rs = Inr zs \<Longrightarrow> mset zs = add_mset p (mset rs)"
  by (induction rs arbitrary: zs) (auto split: sum.splits if_splits)

lemma sort_from_Inr: "sort_from cmp xs rs = Inr ys \<Longrightarrow> mset ys = mset xs + mset rs"
  by (induction xs arbitrary: rs) (auto split: sum.splits dest: insert_by_Inr)

lemma Array_sort_Inr: "Array_sort cmp xs = Inr ys \<Longrightarrow> mset ys = mset xs"
  unfolding Array_sort_def by (auto dest: sort_from_Inr)

lemma insert_by_Inl: "insert_by cmp p rs = Inl e \<Longrightarrow> \<exists>a \<in> set rs. cmp p a = Inl e"
  by (induction rs) (auto split: sum.splits if_splits)

lemma sort_from_Inl:
  "sort_from cmp xs rs = Inl e \<Longrightarrow> \<exists>x \<in> set xs. \<exists>y \<in> set xs \<union> set rs. cmp x y = Inl e"
proof (induction xs arbitrary: rs)
  case Nil
  then show ?case by simp
next
  case (Cons x xs)
  show ?case
  proof (cases "insert_by cmp x rs")
    case (Inl e')
    with Cons.prems have "e' = e" by simp
    with Inl obtain a where "a \<in> set rs" "cmp x a = Inl e" by (blast dest: insert_by_Inl)
    then show ?thesis by auto
  next
    case (Inr rs')
    with Cons.prems have "sort_from cmp xs rs' = Inl e" by simp
    from Cons.IH [OF this] obtain a b where ab: "a \<in> set xs" "b \<in> set xs \<union> set rs'" "cmp a b = Inl e"
      by blast
    have "set rs' = insert x (set rs)"
      using insert_by_Inr [OF Inr] by (metis mset_eq_setD set_mset_add_mset_insert set_mset_mset)
    with ab show ?thesis by auto
  qed
qed

lemma Array_sort_Inl: "Array_sort cmp xs = Inl e \<Longrightarrow> \<exists>x \<in> set xs. \<exists>y \<in> set xs. cmp x y = Inl e"
  unfolding Array_sort_def using sort_from_Inl [of cmp xs "[]" e] by simp

text \<open>The comparator throws only a TypeError, and only for a first task whose due
  date is truthy and no string.\<close>

lemma compareTasks_Inl:
  assumes "compareTasks env a b = Inl e"
  shows "e = TypeError \<and> \<not> comparable_date (due_date a)"
proof -
  from assms have l: "localeCompare env (due_date a) (due_date b) = Inl e" and t: "truthy (due_date a)"
    by (auto simp: compareTasks_def Let_def split: if_splits)
  from l t show ?thesis by (cases "due_date a") simp_all
qed

lemma compareTasks_less:
  assumes "collation_key env key" and "comparable_date (due_date a)"
  shows "\<exists>c. compareTasks env a b = Inr c
    \<and> (c < 0 \<longleftrightarrow> canonical_key env key a < canonical_key env key b)"
proof -
  have lc: "js_localeCompare env x y < 0 \<longleftrightarrow> key x < key y" for x y
    using assms(1) unfolding collation_key_def by blast
  show ?thesis
  proof (cases "truthy (due_date a)")
    case True
    with assms(2) obtain s where s: "due_date a = JStr s" by (cases "due_date a") simp_all
    show ?thesis
      using True by (auto simp: s compareTasks_def canonical_key_def Let_def lc less_eq_prod_def less_prod_def)
  next
    case False
    then show ?thesis
      by (auto simp: compareTasks_def canonical_key_def Let_def less_eq_prod_def less_prod_def)
  qed
qed

text \<open>
  Where every listed task has a due date that is a string or none, and given a
  collation key that \<^verbatim>\<open>localeCompare\<close> follows, \<^verbatim>\<open>listTasks\<close> returns the
  listed tasks in the stable order of the key: by priority rank (urgent 0, high
  1, medium 2, low 3), then dated before undated, then by date ascending, tasks
  with equal keys in their original order.
\<close>

lemma listTasks_local_canonical:
  assumes "collation_key env key"
    and "\<forall>i \<in> set issues. is_planner_issue i \<longrightarrow> comparable_date (due_date (issueToTask env i))"
  shows "listTasks_local env fs issues
    = Inr (sort_key (canonical_key env key)
        (map (issueToTask env)
           (filter (\<lambda>i. is_planner_issue i \<and> (filter_my_day fs \<longrightarrow> my_day (issueToTask env i))) issues)))"
proof -
  let ?ts = "map (issueToTask env)
      (filter (\<lambda>i. is_planner_issue i \<and> (filter_my_day fs \<longrightarrow> my_day (issueToTask env i))) issues)"
  have l: "listTasks_local env fs issues = Array_sort (compareTasks env) ?ts"
    by (simp add: listTasks_local_def Let_def filter_map o_def conj_commute)
  have "\<forall>x \<in> set ?ts. comparable_date (due_date x)"
    using assms(2) by auto
  then have "\<forall>x \<in> set ?ts. \<forall>y \<in> set ?ts. \<exists>c. compareTasks env x y = Inr c
      \<and> (c < 0 \<longleftrightarrow> canonical_key env key x < canonical_key env key y)"
    using compareTasks_less [OF assms(1)] by blast
  then show ?thesis
    unfolding l by (rule Array_sort_sort_key)
qed

text \<open>The four-task example of the specification sorts as stated, whatever the
  runtime.\<close>

lemma canonical_sort_example:
  "map priority_rank [''urgent'', ''high'', ''medium'', ''low''] = [0, 1, 2, 3]
   \<and> Array_sort (compareTasks env)
          [plain_task 1 ''urgent'' None, plain_task 2 ''low'' (Some ''2026-01-01''),
           plain_task 3 ''high'' (Some ''2026-01-05''), plain_task 4 ''high'' None]
        = Inr [plain_task 1 ''urgent'' None, plain_task 3 ''high'' (Some ''2026-01-05''),
           plain_task 4 ''high'' None, plain_task 2 ''low'' (Some ''2026-01-01'')]"
  by (simp add: Array_sort_def compareTasks_def priority_rank_def PRIORITY_ORDER_def plain_task_def)

text \<open>
  C5 fails on the code. The parser reads the due dates \<^verbatim>\<open>20260201\<close> and
  \<^verbatim>\<open>20260105\<close> as numbers, \<^verbatim>\<open>issueToTask\<close> keeps them, and the comparator
  calls \<^verbatim>\<open>localeCompare\<close> on the due date of its first argument, which a number
  does not have: whichever of the two tasks the sort compares with the other,
  the comparator throws, and \<^verbatim>\<open>listTasks\<close> returns no list.
\<close>

theorem sort_throws_on_numeric_dates:
  "due_date (issueToTask sample_runtime (due_issue 1 ''20260201'')) = JNum (Finite 20260201)
   \<and> due_date (issueToTask sample_runtime (due_issue 2 ''20260105'')) = JNum (Finite 20260105)
   \<and> compareTasks sample_runtime (issueToTask sample_runtime (due_issue 1 ''20260201''))
        (issueToTask sample_runtime (due_issue 2 ''20260105'')) = Inl TypeError
   \<and> compareTasks sample_runtime (issueToTask sample_runtime (due_issue 2 ''20260105''))
        (issueToTask sample_runtime (due_issue 1 ''20260201'')) = Inl TypeError
   \<and> listTasks_local sample_runtime no_filters [due_issue 1 ''20260201'', due_issue 2 ''20260105'']
        = Inl TypeError"
  by code_simp

subsection \<open>Listing\<close>

lemma task_id_issueToTask: "task_id (issueToTask env i) = issue_number i"
  by (simp add: issueToTask_def Let_def)

lemma status_issueToTask:
  "status (issueToTask env i) \<in> {''todo'', ''in-progress'', ''done'', ''blocked''}"
proof -
  have "status (issueToTask env i) = getStatusFromLabels (map normalize_label (issue_labels i))"
    by (simp add: issueToTask_def Let_def)
  moreover have "getStatusFromLabels ls \<in> insert ''todo'' (fst ` set STATUS_LABELS)" for ls
    unfolding getStatusFromLabels_def by (rule first_present_range)
  ultimately show ?thesis by (auto simp: STATUS_LABELS_def)
qed

lemma is_planner_issue_iff:
  "is_planner_issue i \<longleftrightarrow> (\<exists>n. LabelObject n \<in> set (issue_labels i) \<and> startsWith n ''tp:'')"
proof
  assume "is_planner_issue i"
  then obtain l where l: "l \<in> set (issue_labels i)" "has_tp_name l"
    by (auto simp: is_planner_issue_def)
  show "\<exists>n. LabelObject n \<in> set (issue_labels i) \<and> startsWith n ''tp:''"
  proof (cases l)
    case (LabelString s)
    with l show ?thesis by simp
  next
    case (LabelObject n)
    with l show ?thesis by auto
  qed
next
  assume "\<exists>n. LabelObject n \<in> set (issue_labels i) \<and> startsWith n ''tp:''"
  then show "is_planner_issue i"
    unfolding is_planner_issue_def by (meson has_tp_name.simps(2))
qed

lemma system_labels_prefixed: "\<forall>n \<in> set system_label_names. startsWith n ''tp:''"
  by (simp add: system_label_names_def STATUS_LABELS_def PRIORITY_LABELS_def startsWith_def)

text \<open>What a listing gives: the listed tasks in some order, or a TypeError, and that
  only when a listed task has a due date that is truthy and no string.\<close>

lemma listTasks_local_cases:
  "case listTasks_local env fs issues of
     Inl e \<Rightarrow> e = TypeError
       \<and> (\<exists>i \<in> set issues. is_planner_issue i \<and> \<not> comparable_date (due_date (issueToTask env i)))
   | Inr ts \<Rightarrow> mset ts = mset (map (issueToTask env)
       (filter (\<lambda>i. is_planner_issue i \<and> (filter_my_day fs \<longrightarrow> my_day (issueToTask env i))) issues))"
proof -
  let ?ts = "map (issueToTask env)
      (filter (\<lambda>i. is_planner_issue i \<and> (filter_my_day fs \<longrightarrow> my_day (issueToTask env i))) issues)"
  have l: "listTasks_local env fs issues = Array_sort (compareTasks env) ?ts"
    by (simp add: listTasks_local_def Let_def filter_map o_def conj_commute)
  show ?thesis
  proof (cases "Array_sort (compareTasks env) ?ts")
    case (Inl e)
    then obtain x y where "x \<in> set ?ts" "compareTasks env x y = Inl e"
      by (blast dest: Array_sort_Inl)
    then have "e = TypeError" "\<exists>x \<in> set ?ts. \<not> comparable_date (due_date x)"
      by (blast dest: compareTasks_Inl)+
    then show ?thesis unfolding l Inl by auto
  next
    case (Inr ts)
    then show ?thesis unfolding l by (simp add: Array_sort_Inr)
  qed
qed

text \<open>
  C3, as the code has it. The tasks that \<^verbatim>\<open>listTasks\<close> returns are, up to
  order, the conversions of the fetched issues that have a label object whose
  name starts with \<^verbatim>\<open>tp:\<close> (and, under the \<^verbatim>\<open>my_day\<close> filter, a truthy
  flag); it returns them unless one of these issues has a due date that is
  truthy and no string, and then it may throw a TypeError. Each of the eight
  system label names has the prefix; so have others.
\<close>

theorem listing_discriminator:
  "(case listTasks_local env fs issues of
      Inl e \<Rightarrow> e = TypeError
        \<and> (\<exists>i \<in> set issues. is_planner_issue i \<and> \<not> comparable_date (due_date (issueToTask env i)))
    | Inr ts \<Rightarrow> mset ts = mset (map (issueToTask env)
        (filter (\<lambda>i. is_planner_issue i \<and> (filter_my_day fs \<longrightarrow> my_day (issueToTask env i))) issues)))
   \<and> (is_planner_issue i \<longleftrightarrow> (\<exists>n. LabelObject n \<in> set (issue_labels i) \<and> startsWith n ''tp:''))
   \<and> (\<forall>n \<in> set system_label_names. startsWith n ''tp:'')"
  using listTasks_local_cases is_planner_issue_iff system_labels_prefixed by blast

lemma listTasks_local_single:
  "is_planner_issue i \<Longrightarrow> \<not> filter_my_day fs \<Longrightarrow> listTasks_local env fs [i] = Inr [issueToTask env i]"
  by (simp add: listTasks_local_def Array_sort_def)

lemma planner_plain_issue:
  "is_planner_issue (plain_issue n names text) \<longleftrightarrow> (\<exists>x \<in> set names. startsWith x ''tp:'')"
  by (auto simp: is_planner_issue_def plain_issue_def)

theorem listing_discriminator_witness:
  "listTasks_local sample_runtime no_filters
       [plain_issue 1 [''bug''] ''a'', plain_issue 2 [''bug'', ''tp:todo''] ''b'']
     = Inr [issueToTask sample_runtime (plain_issue 2 [''bug'', ''tp:todo''] ''b'')]
   \<and> task_id (issueToTask sample_runtime (plain_issue 2 [''bug'', ''tp:todo''] ''b'')) = 2"
proof -
  let ?i1 = "plain_issue 1 [''bug''] ''a''" and ?i2 = "plain_issue 2 [''bug'', ''tp:todo''] ''b''"
  have p: "\<not> is_planner_issue ?i1" "is_planner_issue ?i2"
    by (simp_all add: planner_plain_issue startsWith_def)
  have f: "\<not> filter_my_day no_filters" by (simp add: no_filters_def)
  have d: "comparable_date (due_date (issueToTask sample_runtime ?i2))"
    by code_simp
  have flt: "filter (\<lambda>i. is_planner_issue i
      \<and> (filter_my_day no_filters \<longrightarrow> my_day (issueToTask sample_runtime i))) [?i1, ?i2] = [?i2]"
    using p f by simp
  have none: "\<not> (\<exists>i \<in> set [?i1, ?i2]. is_planner_issue i
      \<and> \<not> comparable_date (due_date (issueToTask sample_runtime i)))"
    using p d by simp
  from listing_discriminator [where env = sample_runtime and fs = no_filters and issues = "[?i1, ?i2]"]
  have c: "case listTasks_local sample_runtime no_filters [?i1, ?i2] of
      Inl e \<Rightarrow> e = TypeError
        \<and> (\<exists>i \<in> set [?i1, ?i2]. is_planner_issue i
              \<and> \<not> comparable_date (due_date (issueToTask sample_runtime i)))
    | Inr ts \<Rightarrow> mset ts = mset (map (issueToTask sample_runtime)
        (filter (\<lambda>i. is_planner_issue i
           \<and> (filter_my_day no_filters \<longrightarrow> my_day (issueToTask sample_runtime i))) [?i1, ?i2]))"
    by (rule conjunct1)
  have "listTasks_local sample_runtime no_filters [?i1, ?i2] = Inr [issueToTask sample_runtime ?i2]"
  proof (cases "listTasks_local sample_runtime no_filters [?i1, ?i2]")
    case (Inl e)
    from c have "\<exists>i \<in> set [?i1, ?i2]. is_planner_issue i
        \<and> \<not> comparable_date (due_date (issueToTask sample_runtime i))"
      unfolding Inl by simp
    with none show ?thesis by contradiction
  next
    case (Inr ts)
    with c have "mset ts = mset [issueToTask sample_runtime ?i2]"
      unfolding flt by simp
    then have "ts = [issueToTask sample_runtime ?i2]"
      by (metis mset_single_iff_right)
    with Inr show ?thesis by simp
  qed
  then show ?thesis
    by (simp add: task_id_issueToTask plain_issue_def)
qed

text \<open>An issue whose only label is \<^verbatim>\<open>tp:custom\<close>, none of the eight system
  names, is listed.\<close>

theorem listing_discriminator_counterexample:
  "labelNames (issue_labels (plain_issue 7 [''tp:custom''] ''notes'')) = [''tp:custom'']
   \<and> ''tp:custom'' \<notin> set system_label_names
   \<and> listTasks_local sample_runtime no_filters [plain_issue 7 [''tp:custom''] ''notes'']
       = Inr [issueToTask sample_runtime (plain_issue 7 [''tp:custom''] ''notes'')]
   \<and> task_id (issueToTask sample_runtime (plain_issue 7 [''tp:custom''] ''notes'')) = 7"
proof -
  have "is_planner_issue (plain_issue 7 [''tp:custom''] ''notes'')"
    by (simp add: planner_plain_issue startsWith_def)
  then have "listTasks_local sample_runtime no_filters [plain_issue 7 [''tp:custom''] ''notes'']
      = Inr [issueToTask sample_runtime (plain_issue 7 [''tp:custom''] ''notes'')]"
    by (rule listTasks_local_single) (simp add: no_filters_def)
  then show ?thesis
    by (simp add: task_id_issueToTask plain_issue_def labelNames_def system_label_names_def
        STATUS_LABELS_def PRIORITY_LABELS_def)
qed

subsection \<open>Board grouping\<close>

lemma fold_board_push:
  "fold board_push ts cols
     = map (\<lambda>(k, c). (k, c\<lparr>column_tasks := column_tasks c @ filter (\<lambda>t. status t = k) ts\<rparr>)) cols"
proof (induction ts arbitrary: cols)
  case Nil
  show ?case by (simp add: case_prod_unfold)
next
  case (Cons t ts)
  have "fold board_push (t # ts) cols = fold board_push ts (board_push t cols)"
    by simp
  also have "\<dots> = map (\<lambda>(k, c). (k, c\<lparr>column_tasks := column_tasks c @ filter (\<lambda>t. status t = k) ts\<rparr>))
      (board_push t cols)"
    by (rule Cons.IH)
  also have "\<dots> = map (\<lambda>(k, c). (k, c\<lparr>column_tasks := column_tasks c @ filter (\<lambda>t. status t = k) (t # ts)\<rparr>)) cols"
    by (auto simp: board_push_def)
  finally show ?case .
qed

lemma four_way_split:
  assumes "\<forall>t \<in> set ts. f t \<in> {a, b, c, d}" and "distinct [a, b, c, d]"
  shows "mset (filter (\<lambda>t. f t = a) ts) + mset (filter (\<lambda>t. f t = b) ts)
       + mset (filter (\<lambda>t. f t = c) ts) + mset (filter (\<lambda>t. f t = d) ts) = mset ts"
  using assms by (induction ts) auto

lemma listed_tasks:
  assumes "listTasks_local env fs issues = Inr ts"
  shows "set ts \<subseteq> issueToTask env ` set issues"
proof -
  from listTasks_local_cases [where env = env and fs = fs and issues = issues] assms
  have "mset ts = mset (map (issueToTask env)
      (filter (\<lambda>i. is_planner_issue i \<and> (filter_my_day fs \<longrightarrow> my_day (issueToTask env i))) issues))"
    by simp
  then have "set ts = set (map (issueToTask env)
      (filter (\<lambda>i. is_planner_issue i \<and> (filter_my_day fs \<longrightarrow> my_day (issueToTask env i))) issues))"
    by (rule mset_eq_setD)
  then show ?thesis by auto
qed

lemma listed_status:
  assumes "listTasks_local env fs issues = Inr ts"
  shows "\<forall>t \<in> set ts. status t \<in> {''todo'', ''in-progress'', ''blocked'', ''done''}"
  using listed_tasks [OF assms] status_issueToTask by fastforce

text \<open>
  C10. For the tasks that a listing returns, the board has the four columns, each
  holding exactly the tasks of its status in list order; the columns together
  are a permutation of the task list, and every task is in exactly one column.
\<close>

theorem board_exact_cover:
  fixes env fs issues tasks
  assumes listed: "listTasks_local env fs issues = Inr tasks"
  defines "cols \<equiv> getBoardData_local tasks"
  shows "map fst cols = [''todo'', ''in-progress'', ''blocked'', ''done'']
    \<and> (\<forall>(k, c) \<in> set cols. column_tasks c = filter (\<lambda>t. status t = k) tasks)
    \<and> mset (concat (map (\<lambda>(k, c). column_tasks c) cols)) = mset tasks
    \<and> (\<forall>t \<in> set tasks. length (filter (\<lambda>(k, c). t \<in> set (column_tasks c)) cols) = 1)"
proof -
  have cols: "cols =
     [(''todo'', \<lparr>column_title = ''To Do'', column_tasks = filter (\<lambda>t. status t = ''todo'') tasks, column_color = ''#0075ca''\<rparr>),
      (''in-progress'', \<lparr>column_title = ''In Progress'', column_tasks = filter (\<lambda>t. status t = ''in-progress'') tasks, column_color = ''#fbca04''\<rparr>),
      (''blocked'', \<lparr>column_title = ''Blocked'', column_tasks = filter (\<lambda>t. status t = ''blocked'') tasks, column_color = ''#d73a4a''\<rparr>),
      (''done'', \<lparr>column_title = ''Done'', column_tasks = filter (\<lambda>t. status t = ''done'') tasks, column_color = ''#0e8a16''\<rparr>)]"
    unfolding cols_def getBoardData_local_def fold_board_push board_columns_def by simp
  have st: "\<forall>t \<in> set tasks. status t \<in> {''todo'', ''in-progress'', ''blocked'', ''done''}"
    using listed by (rule listed_status)
  have 1: "map fst cols = [''todo'', ''in-progress'', ''blocked'', ''done'']"
    unfolding cols by simp
  have 2: "\<forall>(k, c) \<in> set cols. column_tasks c = filter (\<lambda>t. status t = k) tasks"
    unfolding cols by simp
  have 3: "mset (concat (map (\<lambda>(k, c). column_tasks c) cols)) = mset tasks"
    unfolding cols using four_way_split [OF st] by (simp add: ac_simps)
  have 4: "\<forall>t \<in> set tasks. length (filter (\<lambda>(k, c). t \<in> set (column_tasks c)) cols) = 1"
  proof
    fix t assume "t \<in> set tasks"
    with st have "status t \<in> {''todo'', ''in-progress'', ''blocked'', ''done''}" by blast
    with \<open>t \<in> set tasks\<close> show "length (filter (\<lambda>(k, c). t \<in> set (column_tasks c)) cols) = 1"
      unfolding cols by auto
  qed
  from 1 2 3 4 show ?thesis by blast
qed

theorem board_exact_cover_witness:
  "listTasks_local sample_runtime no_filters [plain_issue 1 [''tp:done''] ''x'']
     = Inr [issueToTask sample_runtime (plain_issue 1 [''tp:done''] ''x'')]
   \<and> length (filter (\<lambda>(k, c). issueToTask sample_runtime (plain_issue 1 [''tp:done''] ''x'') \<in> set (column_tasks c))
        (getBoardData_local [issueToTask sample_runtime (plain_issue 1 [''tp:done''] ''x'')])) = 1"
proof -
  let ?i = "plain_issue 1 [''tp:done''] ''x''"
  have "is_planner_issue ?i"
    by (simp add: planner_plain_issue startsWith_def)
  then have l: "listTasks_local sample_runtime no_filters [?i] = Inr [issueToTask sample_runtime ?i]"
    by (rule listTasks_local_single) (simp add: no_filters_def)
  from board_exact_cover [OF l] have "\<forall>t \<in> set [issueToTask sample_runtime ?i].
      length (filter (\<lambda>(k, c). t \<in> set (column_tasks c))
        (getBoardData_local [issueToTask sample_runtime ?i])) = 1"
    by blast
  with l show ?thesis by simp
qed

subsection \<open>My Day\<close>

text \<open>Five of the six pairs of buckets never share a task.\<close>

lemma my_day_buckets_disjoint:
  fixes env today tasks
  defines "v \<equiv> getMyDayTasks_local env today tasks"
  shows "set (view_my_day v) \<inter> set (view_due_today v) = {}"
    and "set (view_my_day v) \<inter> set (view_overdue v) = {}"
    and "set (view_my_day v) \<inter> set (view_in_progress v) = {}"
    and "set (view_due_today v) \<inter> set (view_overdue v) = {}"
    and "set (view_due_today v) \<inter> set (view_in_progress v) = {}"
  unfolding v_def getMyDayTasks_local_def Let_def by auto

text \<open>
  C2 fails on the code. On 2026-02-02 the listed task of the issue above, in
  progress and due the day before, is both in the overdue bucket and in the
  in-progress bucket: the in-progress filter leaves out flagged tasks and tasks
  due today, but not overdue ones.
\<close>

theorem my_day_overlap:
  "listTasks_local sample_runtime no_filters [overdue_in_progress_issue]
     = Inr [issueToTask sample_runtime overdue_in_progress_issue]
   \<and> map task_id (view_overdue (getMyDayTasks_local sample_runtime ''2026-02-02''
       [issueToTask sample_runtime overdue_in_progress_issue])) = [5]
   \<and> map task_id (view_in_progress (getMyDayTasks_local sample_runtime ''2026-02-02''
       [issueToTask sample_runtime overdue_in_progress_issue])) = [5]"
  unfolding overdue_in_progress_issue_def by code_simp

subsection \<open>Analytics: binary64 rounding and the completion rate\<close>

lemma bitlen_rat_bounds:
  assumes "0 < (a::int)"
  shows "(2::rat) powi (bitlen a - 1) \<le> of_int a" and "of_int a < (2::rat) powi bitlen a"
proof -
  from bitlen_bounds [OF assms] have lo: "2 ^ nat (bitlen a - 1) \<le> a" and hi: "a < 2 ^ nat (bitlen a)"
    by auto
  have pos: "1 \<le> bitlen a"
    using assms by (simp add: bitlen_alt_def)
  have "(2::rat) powi (bitlen a - 1) = 2 ^ nat (bitlen a - 1)"
    using pos by (simp add: power_int_def)
  also have "\<dots> = of_int (2 ^ nat (bitlen a - 1))" by simp
  also have "\<dots> \<le> of_int a" using lo by (simp only: of_int_le_iff)
  finally show "(2::rat) powi (bitlen a - 1) \<le> of_int a" .
  have "(of_int a :: rat) < of_int (2 ^ nat (bitlen a))" using hi by (simp only: of_int_less_iff)
  also have "\<dots> = 2 powi bitlen a"
    using pos by (simp add: power_int_def)
  finally show "of_int a < (2::rat) powi bitlen a" .
qed

lemma binade_bounds:
  assumes "0 < x"
  shows "2 powi binade x \<le> x" and "x < 2 powi (binade x + 1)"
proof -
  obtain a b where q: "quotient_of x = (a, b)" by (cases "quotient_of x")
  then have b: "0 < b" and x: "x = of_int a / of_int b"
    using quotient_of_denom_pos quotient_of_div by blast+
  have a: "0 < a"
    using assms b unfolding x by (simp add: zero_less_divide_iff)
  define k where "k = bitlen a - bitlen b"
  have e: "binade x = (if 2 powi k \<le> x then k else k - 1)"
    by (simp add: binade_def q k_def Let_def)
  have bpos: "(0::rat) < of_int b" using b by simp
  have "x < 2 powi bitlen a / 2 powi (bitlen b - 1)"
  proof -
    have "x < 2 powi bitlen a / of_int b"
      unfolding x using bitlen_rat_bounds(2) [OF a] bpos by (simp add: divide_strict_right_mono)
    also have "\<dots> \<le> 2 powi bitlen a / 2 powi (bitlen b - 1)"
      using bitlen_rat_bounds(1) [OF b] b by (intro divide_left_mono) (auto intro!: mult_pos_pos)
    finally show ?thesis .
  qed
  then have up: "x < 2 powi (k + 1)"
    by (simp add: k_def power_int_diff [symmetric] algebra_simps)
  have "2 powi (bitlen a - 1) / 2 powi bitlen b < x"
  proof -
    have "(2::rat) powi (bitlen a - 1) / 2 powi bitlen b < 2 powi (bitlen a - 1) / of_int b"
      using bitlen_rat_bounds(2) [OF b] b by (intro divide_strict_left_mono) (auto intro!: mult_pos_pos)
    also have "\<dots> \<le> x"
      unfolding x using bitlen_rat_bounds(1) [OF a] bpos by (simp add: divide_right_mono)
    finally show ?thesis .
  qed
  then have lo: "2 powi (k - 1) < x"
    by (simp add: k_def power_int_diff [symmetric] algebra_simps)
  show "2 powi binade x \<le> x"
    using lo by (simp add: e)
  show "x < 2 powi (binade x + 1)"
    using up by (auto simp: e not_le)
qed

lemma round_half_even_bounds:
  "q - 1 / 2 \<le> of_int (round_half_even q)" "of_int (round_half_even q) \<le> q + 1 / 2"
proof -
  have f: "of_int \<lfloor>q\<rfloor> \<le> q" "q < of_int \<lfloor>q\<rfloor> + 1" by linarith+
  show "q - 1 / 2 \<le> of_int (round_half_even q)"
    unfolding round_half_even_def Let_def using f by (auto split: if_splits)
  show "of_int (round_half_even q) \<le> q + 1 / 2"
    unfolding round_half_even_def Let_def using f by (auto split: if_splits) linarith+
qed

lemma round_half_even_of_int: "round_half_even (of_int n) = n"
  by (simp add: round_half_even_def)

lemma round_half_even_mono:
  assumes "q \<le> q'"
  shows "round_half_even q \<le> round_half_even q'"
proof (cases "\<lfloor>q\<rfloor> = \<lfloor>q'\<rfloor>")
  case True
  with assms show ?thesis
    by (auto simp: round_half_even_def Let_def)
next
  case False
  with assms have "\<lfloor>q\<rfloor> + 1 \<le> \<lfloor>q'\<rfloor>"
    using floor_mono [OF assms] by linarith
  moreover have "round_half_even q \<le> \<lfloor>q\<rfloor> + 1"
    by (auto simp: round_half_even_def Let_def)
  moreover have "\<lfloor>q'\<rfloor> \<le> round_half_even q'"
    by (auto simp: round_half_even_def Let_def)
  ultimately show ?thesis by linarith
qed

lemma binary64_pos:
  assumes "0 < x"
  shows "binary64 x = of_int (round_half_even (x / 2 powi (binade x - 52))) * 2 powi (binade x - 52)"
  using assms by (simp add: binary64_def Let_def)

lemma binary64_range:
  assumes "0 < x"
  shows "2 powi binade x \<le> binary64 x" and "binary64 x \<le> 2 powi (binade x + 1)"
proof -
  define e where "e = binade x"
  define u :: rat where "u = 2 powi (e - 52)"
  have u: "0 < u" by (simp add: u_def)
  have lo: "2 powi e \<le> x" and hi: "x < 2 powi (e + 1)"
    unfolding e_def using binade_bounds [OF assms] by auto
  have "2 powi e / u = 2 powi (e - (e - 52))"
    unfolding u_def by (rule power_int_diff [symmetric]) simp
  then have s52: "2 powi e / u = of_int (2 ^ 52)" by simp
  have "2 powi (e + 1) / u = 2 powi (e + 1 - (e - 52))"
    unfolding u_def by (rule power_int_diff [symmetric]) simp
  then have s53: "2 powi (e + 1) / u = of_int (2 ^ 53)" by simp
  have "round_half_even (2 powi e / u) \<le> round_half_even (x / u)"
    using lo u by (intro round_half_even_mono divide_right_mono) auto
  then have a: "2 ^ 52 \<le> round_half_even (x / u)"
    unfolding s52 round_half_even_of_int .
  have "round_half_even (x / u) \<le> round_half_even (2 powi (e + 1) / u)"
    using hi u by (intro round_half_even_mono divide_right_mono) auto
  then have b: "round_half_even (x / u) \<le> 2 ^ 53"
    unfolding s53 round_half_even_of_int .
  have v: "binary64 x = of_int (round_half_even (x / u)) * u"
    unfolding u_def e_def by (rule binary64_pos [OF assms])
  have "2 powi e = of_int (2 ^ 52) * u"
    using s52 u by (simp add: field_simps)
  also have "\<dots> \<le> of_int (round_half_even (x / u)) * u"
  proof (rule mult_right_mono)
    show "(of_int (2 ^ 52) :: rat) \<le> of_int (round_half_even (x / u))"
      using a by (simp only: of_int_le_iff)
    show "0 \<le> u" using u by simp
  qed
  finally show "2 powi binade x \<le> binary64 x"
    unfolding v e_def .
  have "of_int (round_half_even (x / u)) * u \<le> of_int (2 ^ 53) * u"
  proof (rule mult_right_mono)
    show "(of_int (round_half_even (x / u)) :: rat) \<le> of_int (2 ^ 53)"
      using b by (simp only: of_int_le_iff)
    show "0 \<le> u" using u by simp
  qed
  also have "\<dots> = 2 powi (e + 1)"
    using s53 u by (simp add: field_simps)
  finally show "binary64 x \<le> 2 powi (binade x + 1)"
    unfolding v e_def .
qed

lemma binade_mono:
  assumes "0 < x" "x \<le> y"
  shows "binade x \<le> binade y"
proof -
  have "(2::rat) powi binade x \<le> x" using binade_bounds(1) [OF assms(1)] .
  also have "\<dots> \<le> y" by fact
  also have "\<dots> < 2 powi (binade y + 1)"
    using binade_bounds(2) [of y] assms by simp
  finally have lt: "(2::rat) powi binade x < 2 powi (binade y + 1)" .
  show ?thesis
  proof (rule ccontr)
    assume "\<not> binade x \<le> binade y"
    then have "binade y + 1 \<le> binade x" by simp
    then have "(2::rat) powi (binade y + 1) \<le> 2 powi binade x"
      by (rule power_int_increasing) simp
    with lt show False by simp
  qed
qed

lemma binary64_mono:
  assumes "0 \<le> x" "x \<le> y"
  shows "binary64 x \<le> binary64 y"
proof (cases "x = 0")
  case True
  show ?thesis
  proof (cases "y = 0")
    case True
    with \<open>x = 0\<close> show ?thesis by simp
  next
    case False
    with assms True have "0 < y" by simp
    from binary64_range(1) [OF this] have "0 < binary64 y"
      by (rule less_le_trans [rotated]) simp
    with True show ?thesis by (simp add: binary64_def)
  qed
next
  case False
  with assms have x: "0 < x" and y: "0 < y" by simp_all
  show ?thesis
  proof (cases "binade x = binade y")
    case True
    have "round_half_even (x / 2 powi (binade y - 52)) \<le> round_half_even (y / 2 powi (binade y - 52))"
      using assms(2) by (intro round_half_even_mono divide_right_mono) simp_all
    then show ?thesis
      unfolding binary64_pos [OF x] binary64_pos [OF y] True
      by (intro mult_right_mono) simp_all
  next
    case False
    with binade_mono [OF x assms(2)] have "binade x + 1 \<le> binade y" by simp
    then have "(2::rat) powi (binade x + 1) \<le> 2 powi binade y"
      by (simp add: power_int_increasing)
    with binary64_range(2) [OF x] binary64_range(1) [OF y] show ?thesis by linarith
  qed
qed

lemma binary64_exact: "binary64 0 = 0" "binary64 1 = 1" "binary64 100 = 100"
  by code_simp+

lemma binary64_nonneg: "0 \<le> x \<Longrightarrow> 0 \<le> binary64 x"
  using binary64_mono [of 0 x] by (simp add: binary64_exact)

lemma binary64_error:
  assumes "0 < x"
  shows "\<bar>binary64 x - x\<bar> \<le> x / 2 ^ 53"
proof -
  define u :: rat where "u = 2 powi (binade x - 52)"
  define n where "n = round_half_even (x / u)"
  have u: "0 < u" by (simp add: u_def)
  have v: "binary64 x = of_int n * u"
    unfolding n_def u_def by (rule binary64_pos [OF assms])
  have "\<bar>of_int n - x / u\<bar> \<le> 1 / 2"
    using round_half_even_bounds [of "x / u"] unfolding n_def by linarith
  then have "\<bar>of_int n - x / u\<bar> * u \<le> 1 / 2 * u"
    using u by (intro mult_right_mono) simp_all
  moreover have "\<bar>of_int n - x / u\<bar> * u = \<bar>of_int n * u - x\<bar>"
    using u by (simp add: abs_mult_pos' [symmetric] field_simps del: abs_mult_pos')
  ultimately have e1: "\<bar>binary64 x - x\<bar> \<le> u / 2"
    unfolding v by simp
  have "u * 2 ^ 52 = 2 powi (binade x - 52) * 2 powi 52"
    by (simp add: u_def)
  also have "\<dots> = 2 powi binade x"
    by (subst power_int_add [symmetric]) simp_all
  also have "\<dots> \<le> x" by (rule binade_bounds(1) [OF assms])
  finally have "u \<le> x / 2 ^ 52" by (simp add: field_simps)
  then have "u / 2 \<le> x / 2 ^ 53" by simp
  with e1 show ?thesis by linarith
qed

lemma completion_rate_bounds:
  assumes "d \<le> n"
  shows "0 \<le> completion_rate d n" and "completion_rate d n \<le> 100"
proof -
  have both: "0 \<le> completion_rate d n \<and> completion_rate d n \<le> 100"
  proof (cases "n = 0")
    case True
    then show ?thesis by (simp add: completion_rate_def)
  next
    case False
    define q :: rat where "q = of_nat d / of_nat n"
    have q: "0 \<le> q" "q \<le> 1"
      using assms False by (simp_all add: q_def)
    have y1: "0 \<le> binary64 q" "binary64 q \<le> 1"
      using binary64_nonneg [OF q(1)] binary64_mono [OF q] by (simp_all add: binary64_exact)
    then have z: "0 \<le> binary64 q * 100" "binary64 q * 100 \<le> 100" by simp_all
    have y2: "0 \<le> binary64 (binary64 q * 100)" "binary64 (binary64 q * 100) \<le> 100"
      using binary64_nonneg [OF z(1)] binary64_mono [OF z] by (simp_all add: binary64_exact)
    have "completion_rate d n = \<lfloor>binary64 (binary64 q * 100) + 1 / 2\<rfloor>"
      using False by (simp add: completion_rate_def Math_round_def q_def)
    moreover have "0 \<le> \<lfloor>binary64 (binary64 q * 100) + 1 / 2\<rfloor>"
      using y2(1) by (simp add: le_floor_iff)
    moreover have "\<lfloor>binary64 (binary64 q * 100) + 1 / 2\<rfloor> \<le> 100"
      using y2(2) by (simp add: floor_le_iff)
    ultimately show ?thesis by simp
  qed
  from both show "0 \<le> completion_rate d n" and "completion_rate d n \<le> 100" by simp_all
qed

lemma map_of_put: "map_of (put k v ps) = (map_of ps)(k \<mapsto> v)"
  by (induction ps) auto

lemma map_of_bump_count:
  assumes "map_of cs k = Some (Count n)" and "k \<noteq> ''__proto__''"
  shows "map_of (bump env k' cs) k = Some (Count (n + (if k' = k then 1 else 0)))"
  using assms by (cases "k' = k") (simp_all add: bump_def set_prop_def map_of_put)

lemma map_of_fold_bump:
  assumes "map_of cs k = Some (Count n)" and "k \<noteq> ''__proto__''"
  shows "map_of (fold (\<lambda>t. bump env (f t)) ts cs) k
    = Some (Count (n + length (filter (\<lambda>t. f t = k) ts)))"
  using assms(1)
proof (induction ts arbitrary: cs n)
  case Nil
  then show ?case by simp
next
  case (Cons t ts)
  have "map_of (bump env (f t) cs) k = Some (Count (n + (if f t = k then 1 else 0)))"
    using Cons.prems assms(2) by (rule map_of_bump_count)
  from Cons.IH [OF this] show ?case by simp
qed

lemma analytics_completed:
  "completed (getAnalytics_local env today tasks) = length (filter (\<lambda>t. status t = ''done'') tasks)"
proof -
  let ?cs = "[(''todo'', Count 0), (''in-progress'', Count 0), (''done'', Count 0), (''blocked'', Count 0)]"
  have "map_of ?cs ''done'' = Some (Count 0)" by simp
  then have "map_of (fold (\<lambda>t. bump env (status t)) tasks ?cs) ''done''
      = Some (Count (0 + length (filter (\<lambda>t. status t = ''done'') tasks)))"
    by (rule map_of_fold_bump) simp
  then show ?thesis
    by (simp add: getAnalytics_local_def Let_def count_of_def)
qed

lemma analytics_rate:
  "completionRate (getAnalytics_local env today tasks)
     = completion_rate (completed (getAnalytics_local env today tasks))
         (total_count (getAnalytics_local env today tasks))"
  by (simp add: getAnalytics_local_def Let_def)

lemma analytics_total: "total_count (getAnalytics_local env today tasks) = length tasks"
  by (simp add: getAnalytics_local_def Let_def)

lemma completion_rate_error:
  assumes "0 < n" "d \<le> n"
  shows "\<bar>binary64 (binary64 (of_nat d / of_nat n) * 100) - of_nat (100 * d) / of_nat n\<bar> \<le> 300 / 2 ^ 53"
proof (cases "d = 0")
  case True
  then show ?thesis by (simp add: binary64_exact)
next
  case False
  define q :: rat where "q = of_nat d / of_nat n"
  have q: "0 < q" "q \<le> 1"
    using assms False by (simp_all add: q_def)
  define y1 where "y1 = binary64 q"
  have e1: "\<bar>y1 - q\<bar> \<le> q / 2 ^ 53"
    unfolding y1_def by (rule binary64_error [OF q(1)])
  have y1: "0 < y1" "y1 \<le> 1"
  proof -
    have "(0::rat) < 2 powi binade q" by simp
    also have "\<dots> \<le> y1" unfolding y1_def by (rule binary64_range(1) [OF q(1)])
    finally show "0 < y1" .
    show "y1 \<le> 1"
      unfolding y1_def using binary64_mono [of q 1] q by (simp add: binary64_exact)
  qed
  define y2 where "y2 = binary64 (y1 * 100)"
  have z: "0 < y1 * 100" using y1 by simp
  have e2: "\<bar>y2 - y1 * 100\<bar> \<le> y1 * 100 / 2 ^ 53"
    unfolding y2_def by (rule binary64_error [OF z])
  have sc: "\<bar>y1 * 100 - q * 100\<bar> = \<bar>y1 - q\<bar> * 100"
  proof -
    have "(y1 - q) * 100 = y1 * 100 - q * 100" by (simp add: algebra_simps)
    then have "\<bar>y1 * 100 - q * 100\<bar> = \<bar>(y1 - q) * 100\<bar>" by (simp only:)
    also have "\<dots> = \<bar>y1 - q\<bar> * \<bar>100\<bar>" by (rule abs_mult)
    finally show ?thesis by simp
  qed
  have "\<bar>y2 - q * 100\<bar> \<le> \<bar>y2 - y1 * 100\<bar> + \<bar>y1 * 100 - q * 100\<bar>"
    by linarith
  also have "\<dots> = \<bar>y2 - y1 * 100\<bar> + \<bar>y1 - q\<bar> * 100"
    by (simp only: sc)
  also have "\<dots> \<le> y1 * 100 / 2 ^ 53 + q / 2 ^ 53 * 100"
  proof (rule add_mono)
    show "\<bar>y2 - y1 * 100\<bar> \<le> y1 * 100 / 2 ^ 53" by (rule e2)
    show "\<bar>y1 - q\<bar> * 100 \<le> q / 2 ^ 53 * 100"
      by (rule mult_right_mono [OF e1]) simp
  qed
  also have "\<dots> \<le> 1 * 100 / 2 ^ 53 + 1 / 2 ^ 53 * 100"
    using y1(2) q(2) by (intro add_mono mult_right_mono divide_right_mono) simp_all
  also have "\<dots> \<le> 300 / 2 ^ 53" by simp
  finally have "\<bar>y2 - q * 100\<bar> \<le> 300 / 2 ^ 53" .
  moreover have "q * 100 = of_nat (100 * d) / of_nat n"
    by (simp add: q_def)
  ultimately have "\<bar>y2 - of_nat (100 * d) / of_nat n\<bar> \<le> 300 / 2 ^ 53"
    by (simp only:)
  then show ?thesis
    unfolding y2_def y1_def q_def .
qed

lemma completion_rate_exact:
  assumes "0 < n" "d \<le> n" "n < 2 ^ 32"
  shows "completion_rate d n = \<lfloor>(of_nat (100 * d) / of_nat n :: rat) + 1 / 2\<rfloor>
     \<or> completion_rate d n = \<lfloor>(of_nat (100 * d) / of_nat n :: rat) + 1 / 2\<rfloor> - 1
        \<and> (200 * d + n) mod (2 * n) = 0"
proof -
  define X :: rat where "X = of_nat (100 * d) / of_nat n"
  define y where "y = binary64 (binary64 (of_nat d / of_nat n) * 100)"
  define m where "m = \<lfloor>X + 1 / 2\<rfloor>"
  define N where "N = int (200 * d + n)"
  define M where "M = int (2 * n)"
  define r where "r = N mod M"
  have M: "0 < M" using assms(1) by (simp add: M_def)
  have err: "\<bar>y - X\<bar> \<le> 300 / 2 ^ 53"
    unfolding y_def X_def by (rule completion_rate_error [OF assms(1,2)])
  have rate: "completion_rate d n = \<lfloor>y + 1 / 2\<rfloor>"
    using assms(1) by (simp add: completion_rate_def Math_round_def y_def)
  have Xh: "X + 1 / 2 = of_int N / of_int M"
    using assms(1) by (simp add: X_def N_def M_def field_simps)
  have m: "m = N div M"
    unfolding m_def Xh by (rule floor_divide_of_int_eq)
  have r: "0 \<le> r" "r < M" "N = m * M + r"
    using M by (simp_all add: r_def m)
  have Xr: "X + 1 / 2 = of_int m + of_int r / of_int M"
    unfolding Xh r(3) using M by (simp add: field_simps)
  have small: "(300 :: rat) / 2 ^ 53 < 1 / of_int M"
  proof -
    have "M < 2 ^ 33" using assms(3) by (simp add: M_def)
    then have "(of_int M :: rat) < of_int (2 ^ 33)" by (simp only: of_int_less_iff)
    then have "(of_int M :: rat) * 300 < 2 ^ 33 * 300" by simp
    also have "\<dots> < 2 ^ 53" by simp
    finally show ?thesis using M by (simp add: field_simps)
  qed
  have upper: "\<lfloor>y + 1 / 2\<rfloor> \<le> m"
  proof -
    have "r \<le> M - 1" using r(2) by simp
    then have "(of_int r :: rat) \<le> of_int (M - 1)" by (simp only: of_int_le_iff)
    then have "(of_int r :: rat) / of_int M \<le> of_int (M - 1) / of_int M"
      using M by (intro divide_right_mono) simp_all
    also have "\<dots> = 1 - 1 / of_int M" using M by (simp add: field_simps)
    finally have "X + 1 / 2 \<le> of_int m + 1 - 1 / of_int M"
      unfolding Xr by simp
    moreover have "y \<le> X + 300 / 2 ^ 53" using err by linarith
    ultimately have "y + 1 / 2 < of_int m + 1" using small by linarith
    then have "y + 1 / 2 < of_int (m + 1)" by simp
    then have "\<lfloor>y + 1 / 2\<rfloor> < m + 1" by (simp only: floor_less_iff)
    then show ?thesis by simp
  qed
  have lower_weak: "m - 1 \<le> \<lfloor>y + 1 / 2\<rfloor>"
  proof -
    have "0 \<le> (of_int r :: rat) / of_int M" using r(1) M by simp
    then have "of_int m \<le> X + 1 / 2" unfolding Xr by simp
    moreover have "X - 300 / 2 ^ 53 \<le> y" using err by linarith
    moreover have "(300 :: rat) / 2 ^ 53 \<le> 1" by simp
    ultimately have "of_int (m - 1) \<le> y + 1 / 2" by simp
    then show ?thesis by (simp only: le_floor_iff)
  qed
  show ?thesis
  proof (cases "r = 0")
    case True
    have "(200 * d + n) mod (2 * n) = 0"
    proof -
      have "int ((200 * d + n) mod (2 * n)) = r"
        unfolding r_def N_def M_def by (simp only: zmod_int)
      with True show ?thesis by simp
    qed
    with upper lower_weak show ?thesis
      unfolding rate m_def X_def by linarith
  next
    case False
    with r(1) have "1 \<le> r" by simp
    then have "(of_int 1 :: rat) \<le> of_int r" by (simp only: of_int_le_iff)
    then have "1 / of_int M \<le> (of_int r :: rat) / of_int M"
      using M by (intro divide_right_mono) simp_all
    then have "of_int m + 1 / of_int M \<le> X + 1 / 2" unfolding Xr by simp
    moreover have "X - 300 / 2 ^ 53 \<le> y" using err by linarith
    ultimately have "of_int m \<le> y + 1 / 2" using small by linarith
    then have "m \<le> \<lfloor>y + 1 / 2\<rfloor>" by (simp only: le_floor_iff)
    with upper show ?thesis
      unfolding rate m_def X_def by linarith
  qed
qed

text \<open>
  C9, as the code has it. The completion rate is 0 for the empty list and lies
  between 0 and 100. For a list of fewer than \<open>2\<^sup>3\<^sup>2\<close> tasks it is the
  quotient \<open>100 \<sqdot> done / total\<close> rounded to the nearest integer, halves up,
  unless that quotient lies exactly halfway between two integers: then the
  double arithmetic may also give the integer below.
\<close>

theorem completion_rate_analytics:
  fixes env today tasks
  defines "A \<equiv> getAnalytics_local env today tasks"
  shows "total_count A = length tasks
    \<and> completed A = length (filter (\<lambda>t. status t = ''done'') tasks)
    \<and> (tasks = [] \<longrightarrow> completionRate A = 0)
    \<and> 0 \<le> completionRate A \<and> completionRate A \<le> 100
    \<and> (tasks \<noteq> [] \<and> length tasks < 2 ^ 32 \<longrightarrow>
         completionRate A = \<lfloor>(of_nat (100 * completed A) / of_nat (total_count A) :: rat) + 1 / 2\<rfloor>
         \<or> completionRate A = \<lfloor>(of_nat (100 * completed A) / of_nat (total_count A) :: rat) + 1 / 2\<rfloor> - 1
           \<and> (200 * completed A + total_count A) mod (2 * total_count A) = 0)"
proof -
  have t: "total_count A = length tasks"
    unfolding A_def by (rule analytics_total)
  have c: "completed A = length (filter (\<lambda>t. status t = ''done'') tasks)"
    unfolding A_def by (rule analytics_completed)
  have r: "completionRate A = completion_rate (completed A) (total_count A)"
    unfolding A_def by (rule analytics_rate)
  have le: "completed A \<le> total_count A"
    unfolding t c by (rule length_filter_le)
  have z: "tasks = [] \<longrightarrow> completionRate A = 0"
    unfolding r t by (simp add: completion_rate_def)
  have b: "0 \<le> completionRate A" "completionRate A \<le> 100"
    unfolding r using completion_rate_bounds [OF le] by simp_all
  have e: "tasks \<noteq> [] \<and> length tasks < 2 ^ 32 \<longrightarrow>
         completionRate A = \<lfloor>(of_nat (100 * completed A) / of_nat (total_count A) :: rat) + 1 / 2\<rfloor>
         \<or> completionRate A = \<lfloor>(of_nat (100 * completed A) / of_nat (total_count A) :: rat) + 1 / 2\<rfloor> - 1
           \<and> (200 * completed A + total_count A) mod (2 * total_count A) = 0"
  proof
    assume "tasks \<noteq> [] \<and> length tasks < 2 ^ 32"
    then have "0 < total_count A" "total_count A < 2 ^ 32" unfolding t by simp_all
    from completion_rate_exact [OF this(1) le this(2)] show
      "completionRate A = \<lfloor>(of_nat (100 * completed A) / of_nat (total_count A) :: rat) + 1 / 2\<rfloor>
         \<or> completionRate A = \<lfloor>(of_nat (100 * completed A) / of_nat (total_count A) :: rat) + 1 / 2\<rfloor> - 1
           \<and> (200 * completed A + total_count A) mod (2 * total_count A) = 0"
      unfolding r .
  qed
  from t c z b e show ?thesis by blast
qed

theorem completion_rate_analytics_witness:
  "completionRate (getAnalytics_local sample_runtime ''2026-02-02'' []) = 0
   \<and> completionRate (getAnalytics_local sample_runtime ''2026-02-02''
        [(plain_task 1 ''high'' None)\<lparr>status := ''done''\<rparr>, plain_task 2 ''low'' None,
         plain_task 3 ''low'' None]) = 33"
proof -
  let ?ts = "[(plain_task 1 ''high'' None)\<lparr>status := ''done''\<rparr>, plain_task 2 ''low'' None,
         plain_task 3 ''low'' None]"
  let ?A = "getAnalytics_local sample_runtime ''2026-02-02'' ?ts"
  from completion_rate_analytics [of sample_runtime "''2026-02-02''" "[]"]
  have a: "completionRate (getAnalytics_local sample_runtime ''2026-02-02'' []) = 0" by blast
  from completion_rate_analytics [of sample_runtime "''2026-02-02''" ?ts]
  have t: "total_count ?A = length ?ts"
    and c: "completed ?A = length (filter (\<lambda>t. status t = ''done'') ?ts)"
    and e: "?ts \<noteq> [] \<and> length ?ts < 2 ^ 32 \<longrightarrow>
         completionRate ?A = \<lfloor>(of_nat (100 * completed ?A) / of_nat (total_count ?A) :: rat) + 1 / 2\<rfloor>
         \<or> completionRate ?A = \<lfloor>(of_nat (100 * completed ?A) / of_nat (total_count ?A) :: rat) + 1 / 2\<rfloor> - 1
           \<and> (200 * completed ?A + total_count ?A) mod (2 * total_count ?A) = 0"
    by blast+
  have t3: "total_count ?A = 3" unfolding t by simp
  have c1: "completed ?A = 1" unfolding c by (simp add: plain_task_def)
  have f: "\<lfloor>(of_nat (100 * 1) / of_nat 3 :: rat) + 1 / 2\<rfloor> = 33"
    by (simp add: floor_eq_iff)
  from e have "completionRate ?A = 33"
    unfolding t3 c1 f by simp
  with a show ?thesis by simp
qed

text \<open>With 23 of 40 tasks done the quotient is 57.5, which rounds to 58; the
  doubles give \<open>23 / 40 \<sqdot> 100 = 57.49999999999999\<close> and the rate 57.\<close>

theorem completion_rate_counterexample:
  "completionRate (getAnalytics_local sample_runtime ''2026-02-02''
      (replicate 23 ((plain_task 1 ''medium'' None)\<lparr>status := ''done''\<rparr>)
       @ replicate 17 (plain_task 2 ''medium'' None))) = 57
   \<and> \<lfloor>(23 / 40 * 100 :: rat) + 1 / 2\<rfloor> = 58"
proof -
  let ?ts = "replicate 23 ((plain_task 1 ''medium'' None)\<lparr>status := ''done''\<rparr>)
       @ replicate 17 (plain_task 2 ''medium'' None)"
  have "length (filter (\<lambda>t. status t = ''done'') ?ts) = 23"
    by (simp add: plain_task_def)
  moreover have "length ?ts = 40" by simp
  moreover have "completion_rate 23 40 = 57" by code_simp
  ultimately have "completionRate (getAnalytics_local sample_runtime ''2026-02-02'' ?ts) = 57"
    by (simp only: analytics_rate analytics_completed analytics_total)
  moreover have "\<lfloor>(23 / 40 * 100 :: rat) + 1 / 2\<rfloor> = 58" by simp
  ultimately show ?thesis by simp
qed

subsection \<open>Soft delete\<close>

lemma issueToTask_state: "issueToTask env (i\<lparr>issue_state := s\<rparr>) = issueToTask env i"
  by (simp add: issueToTask_def first_assignee_def)

lemma gh_json_closed:
  "gh_json (R\<lparr>remote_issues := xs\<rparr>) (r\<lparr>remote_closed := c, remote_state_reason := z\<rparr>)
     = (gh_json R r)\<lparr>issue_state := state_text R c\<rparr>"
  by (simp add: gh_json_def)

lemma find_map_same_number:
  assumes "\<And>x. remote_number (f x) = remote_number x"
  shows "find (\<lambda>r. remote_number r = n) (map f xs) = map_option f (find (\<lambda>r. remote_number r = n) xs)"
  by (induction xs) (simp_all add: assms)

lemma listed_ids:
  assumes "listTasks_local env fs issues = Inr ts"
  shows "task_id ` set ts \<subseteq> issue_number ` set issues"
  using listed_tasks [OF assms] by (auto simp: task_id_issueToTask)

lemma no_filters_query:
  "listTasks_query env R no_filters
     = \<lparr>query_state = ''open'', query_labels = [], query_assignee = None,
        query_milestone = None, query_limit = 100\<rparr>"
  by (simp add: listTasks_query_def no_filters_def)

lemma open_listing_numbers:
  assumes "gh_issue_list R \<lparr>query_state = ''open'', query_labels = [], query_assignee = None,
            query_milestone = None, query_limit = k\<rparr> = Inr issues"
  shows "issue_number ` set issues \<subseteq> remote_number ` {r \<in> set (remote_issues R). \<not> remote_closed r}"
proof -
  let ?q = "\<lparr>query_state = ''open'', query_labels = [], query_assignee = None,
            query_milestone = None, query_limit = k\<rparr>"
  have "issues = map (gh_json R) (take k (filter (query_matches ?q) (remote_issues R)))"
    using assms by (simp add: gh_issue_list_def)
  moreover have "set (take k (filter (query_matches ?q) (remote_issues R)))
      \<subseteq> {r \<in> set (remote_issues R). \<not> remote_closed r}"
    using set_take_subset [of k "filter (query_matches ?q) (remote_issues R)"]
    by (auto simp: query_matches_def)
  ultimately show ?thesis
    by (auto simp: gh_json_def)
qed

text \<open>
  C8. For a number under which the repository holds an issue, \<^verbatim>\<open>deleteTask\<close>
  succeeds; afterwards the issue is closed with the reason \<^verbatim>\<open>not planned\<close>,
  the labels and numbers of all issues are as before and the other issues are
  untouched; \<^verbatim>\<open>getTask\<close> on the number returns the same task as before the
  deletion; and the unfiltered \<^verbatim>\<open>listTasks\<close> returns no task of that number
  (it returns a list unless some issue of the repository has a due date that is
  truthy and no string, on which its sort may throw a TypeError).
\<close>

theorem soft_delete:
  assumes "find (\<lambda>r. remote_number r = n) (remote_issues R) = Some r"
  shows "\<exists>R'. deleteTask R n = Inr R'
     \<and> find (\<lambda>r. remote_number r = n) (remote_issues R')
         = Some (r\<lparr>remote_closed := True, remote_state_reason := Some ''not planned''\<rparr>)
     \<and> (\<forall>x \<in> set (remote_issues R'). remote_number x = n
           \<longrightarrow> remote_closed x \<and> remote_state_reason x = Some ''not planned'')
     \<and> map remote_labels (remote_issues R') = map remote_labels (remote_issues R)
     \<and> map remote_number (remote_issues R') = map remote_number (remote_issues R)
     \<and> (\<forall>x \<in> set (remote_issues R). remote_number x \<noteq> n \<longrightarrow> x \<in> set (remote_issues R'))
     \<and> getTask env R' n = getTask env R n
     \<and> (\<exists>t. getTask env R' n = Inr t \<and> task_id t = n)
     \<and> (case listTasks env R' no_filters of
           Inl e \<Rightarrow> e = TypeError
             \<and> (\<exists>x \<in> set (remote_issues R'). \<not> comparable_date (due_date (issueToTask env (gh_json R' x))))
         | Inr ts \<Rightarrow> n \<notin> task_id ` set ts)"
proof -
  define f :: "remote_issue \<Rightarrow> remote_issue" where "f = (\<lambda>x. if remote_number x = n
      then x\<lparr>remote_closed := True, remote_state_reason := Some ''not planned''\<rparr> else x)"
  define R' where "R' = R\<lparr>remote_issues := map f (remote_issues R)\<rparr>"
  have r: "r \<in> set (remote_issues R)" "remote_number r = n"
    using assms by (auto simp: find_Some_iff)
  have num: "remote_number (f x) = remote_number x" for x
    by (simp add: f_def)
  have del: "deleteTask R n = Inr R'"
    using r by (auto simp: deleteTask_def gh_issue_close_def R'_def f_def)
  have found: "find (\<lambda>r. remote_number r = n) (remote_issues R')
      = Some (r\<lparr>remote_closed := True, remote_state_reason := Some ''not planned''\<rparr>)"
  proof -
    have "find (\<lambda>r. remote_number r = n) (map f (remote_issues R))
        = map_option f (find (\<lambda>r. remote_number r = n) (remote_issues R))"
      by (rule find_map_same_number) (rule num)
    also have "\<dots> = Some (f r)" by (simp add: assms)
    also have "f r = r\<lparr>remote_closed := True, remote_state_reason := Some ''not planned''\<rparr>"
      using r(2) by (simp add: f_def)
    finally show ?thesis by (simp add: R'_def)
  qed
  have closed: "\<forall>x \<in> set (remote_issues R'). remote_number x = n
      \<longrightarrow> remote_closed x \<and> remote_state_reason x = Some ''not planned''"
  proof (intro ballI impI)
    fix x assume "x \<in> set (remote_issues R')" and n: "remote_number x = n"
    then obtain y where y: "x = f y" by (auto simp: R'_def)
    with n num [of y] have "remote_number y = n" by simp
    then show "remote_closed x \<and> remote_state_reason x = Some ''not planned''"
      unfolding y by (simp add: f_def)
  qed
  have lab: "remote_labels (f x) = remote_labels x" for x
    by (simp add: f_def)
  have labels: "map remote_labels (remote_issues R') = map remote_labels (remote_issues R)"
    by (simp add: R'_def o_def lab)
  have numbers: "map remote_number (remote_issues R') = map remote_number (remote_issues R)"
    by (simp add: R'_def o_def num)
  have frame: "\<forall>x \<in> set (remote_issues R). remote_number x \<noteq> n \<longrightarrow> x \<in> set (remote_issues R')"
  proof (intro ballI impI)
    fix x assume "x \<in> set (remote_issues R)" "remote_number x \<noteq> n"
    then have "f x = x" "f x \<in> f ` set (remote_issues R)" by (simp_all add: f_def)
    then show "x \<in> set (remote_issues R')" by (simp add: R'_def)
  qed
  have view: "gh_issue_view R n = Inr (gh_json R r)"
    using assms by (simp add: gh_issue_view_def)
  have view': "gh_issue_view R' n = Inr ((gh_json R r)\<lparr>issue_state := state_text R True\<rparr>)"
    using found by (simp add: gh_issue_view_def R'_def gh_json_closed)
  have get: "getTask env R' n = getTask env R n"
    by (simp add: getTask_def view view' issueToTask_state)
  have "getTask env R n = Inr (issueToTask env (gh_json R r))"
    by (simp add: getTask_def view)
  moreover have "task_id (issueToTask env (gh_json R r)) = n"
    using r(2) by (simp add: task_id_issueToTask gh_json_def)
  ultimately have get': "\<exists>t. getTask env R' n = Inr t \<and> task_id t = n"
    unfolding get by blast
  have list: "case listTasks env R' no_filters of
      Inl e \<Rightarrow> e = TypeError
        \<and> (\<exists>x \<in> set (remote_issues R'). \<not> comparable_date (due_date (issueToTask env (gh_json R' x))))
    | Inr ts \<Rightarrow> n \<notin> task_id ` set ts"
  proof -
    let ?q = "\<lparr>query_state = ''open'', query_labels = [], query_assignee = None,
            query_milestone = None, query_limit = 100\<rparr>"
    define issues where "issues = map (gh_json R') (take 100 (filter (query_matches ?q) (remote_issues R')))"
    have issues: "gh_issue_list R' ?q = Inr issues"
      by (simp add: gh_issue_list_def issues_def)
    then have l: "listTasks env R' no_filters = listTasks_local env no_filters issues"
      by (simp add: listTasks_def no_filters_query)
    have sub: "set issues \<subseteq> gh_json R' ` set (remote_issues R')"
      using set_take_subset [of 100 "filter (query_matches ?q) (remote_issues R')"]
      by (auto simp: issues_def)
    show ?thesis
    proof (cases "listTasks_local env no_filters issues")
      case (Inl e)
      with listTasks_local_cases [where env = env and fs = no_filters and issues = issues]
      obtain i where "e = TypeError" "i \<in> set issues"
        "\<not> comparable_date (due_date (issueToTask env i))"
        by auto
      with sub show ?thesis unfolding l Inl by auto
    next
      case (Inr ts)
      have "n \<notin> remote_number ` {r \<in> set (remote_issues R'). \<not> remote_closed r}"
        using closed by auto
      with open_listing_numbers [OF issues] listed_ids [OF Inr]
      have "n \<notin> task_id ` set ts" by blast
      then show ?thesis unfolding l Inr by simp
    qed
  qed
  from del found closed labels numbers frame get get' list show ?thesis by blast
qed

theorem soft_delete_witness:
  "\<exists>R'. deleteTask sample_remote 3 = Inr R'
     \<and> find (\<lambda>r. remote_number r = 3) (remote_issues R')
         = Some ((plain_remote_issue 3 [''tp:todo'', ''tp:high''])
             \<lparr>remote_closed := True, remote_state_reason := Some ''not planned''\<rparr>)
     \<and> (\<exists>t. getTask sample_runtime R' 3 = Inr t \<and> task_id t = 3)
     \<and> (\<exists>ts. listTasks sample_runtime R' no_filters = Inr ts \<and> 3 \<notin> task_id ` set ts)"
proof -
  have h: "find (\<lambda>r. remote_number r = 3) (remote_issues sample_remote)
      = Some (plain_remote_issue 3 [''tp:todo'', ''tp:high''])"
    by (simp add: sample_remote_def plain_remote_issue_def)
  from soft_delete [OF h, of sample_runtime] obtain R' where
    del: "deleteTask sample_remote 3 = Inr R'"
    and found: "find (\<lambda>r. remote_number r = 3) (remote_issues R')
         = Some ((plain_remote_issue 3 [''tp:todo'', ''tp:high''])
             \<lparr>remote_closed := True, remote_state_reason := Some ''not planned''\<rparr>)"
    and get: "\<exists>t. getTask sample_runtime R' 3 = Inr t \<and> task_id t = 3"
    and list: "case listTasks sample_runtime R' no_filters of
           Inl e \<Rightarrow> e = TypeError
             \<and> (\<exists>x \<in> set (remote_issues R').
                   \<not> comparable_date (due_date (issueToTask sample_runtime (gh_json R' x))))
         | Inr ts \<Rightarrow> 3 \<notin> task_id ` set ts"
    by blast
  have "\<not> (\<exists>x \<in> set (remote_issues R').
      \<not> comparable_date (due_date (issueToTask sample_runtime (gh_json R' x))))"
    using del unfolding deleteTask_def gh_issue_close_def sample_remote_def plain_remote_issue_def
    by (auto simp: gh_json_def issueToTask_def parseYamlFrontMatter_def match_front_matter_def
        startsWith_def prop_or_def get_prop_def Let_def)
  with list have "\<exists>ts. listTasks sample_runtime R' no_filters = Inr ts \<and> 3 \<notin> task_id ` set ts"
    by (cases "listTasks sample_runtime R' no_filters") auto
  with del found get show ?thesis by blast
qed

subsection \<open>The state in an update\<close>

text \<open>In the request that \<^verbatim>\<open>updateTask\<close> builds from an issue: the status
  \<^verbatim>\<open>done\<close> sets the state \<^verbatim>\<open>closed\<close> with the reason \<^verbatim>\<open>completed\<close>;
  any other status that is given sets the state \<^verbatim>\<open>open\<close> exactly when the
  state read from the issue is the text \<^verbatim>\<open>closed\<close>; an update without a status
  sets no state.\<close>

lemma updateTask_payload_state:
  fixes env cur u
  defines "P \<equiv> updateTask_payload env cur u"
  shows "(upd_status u = Some ''done''
            \<longrightarrow> payload_state P = Some ''closed'' \<and> payload_state_reason P = Some ''completed'')
    \<and> (given (upd_status u) \<and> upd_status u \<noteq> Some ''done''
            \<longrightarrow> payload_state P = (if issue_state cur = ''closed'' then Some ''open'' else None)
              \<and> payload_state_reason P = None)
    \<and> (\<not> given (upd_status u) \<longrightarrow> payload_state P = None \<and> payload_state_reason P = None)"
  unfolding P_def updateTask_payload_def Let_def by auto

text \<open>The issue that \<^verbatim>\<open>updateTask\<close> reads comes from \<^verbatim>\<open>gh issue view\<close>. When
  that prints the state of a closed issue in any other spelling than \<^verbatim>\<open>closed\<close>,
  no request sets the state \<^verbatim>\<open>open\<close>.\<close>

lemma updateTask_request_never_opens:
  assumes "state_text R True \<noteq> ''closed''" and "state_text R False \<noteq> ''closed''"
    and "updateTask_request env R n u = Inr P"
  shows "payload_state P \<noteq> Some ''open''"
proof -
  from assms(3) obtain r where r: "gh_issue_view R n = Inr (gh_json R r)"
    and P: "P = updateTask_payload env (gh_json R r) u"
    by (auto simp: updateTask_request_def gh_issue_view_def split: option.splits)
  have "issue_state (gh_json R r) \<noteq> ''closed''"
    using assms(1,2) by (cases "remote_closed r") (simp_all add: gh_json_def)
  then show ?thesis
    unfolding P updateTask_payload_def Let_def by simp
qed

text \<open>
  C7 fails on the code. Issue 7 was closed by the done transition, and
  \<^verbatim>\<open>gh issue view\<close> prints its state as \<^verbatim>\<open>CLOSED\<close>. \<^verbatim>\<open>updateTask\<close> compares
  the state with \<^verbatim>\<open>closed\<close>, so its request for the status \<^verbatim>\<open>todo\<close> swaps
  the label \<^verbatim>\<open>tp:done\<close> for \<^verbatim>\<open>tp:todo\<close> and sets no state: the issue is not
  reopened.
\<close>

theorem reopen_sends_no_state:
  "(case gh_issue_view completed_remote 7 of
      Inl e \<Rightarrow> False
    | Inr i \<Rightarrow> issue_state i = ''CLOSED'' \<and> getStatusFromLabels (issue_labels i) = ''done'')
   \<and> (case updateTask_request sample_runtime completed_remote 7 (no_updates\<lparr>upd_status := Some ''todo''\<rparr>) of
        Inl e \<Rightarrow> False
      | Inr P \<Rightarrow> payload_labels P = [Some ''tp:high'', Some ''tp:todo'']
                 \<and> payload_state P = None \<and> payload_state_reason P = None)"
  by code_simp

subsection \<open>The front matter round trip\<close>

lemma trim_space_Cons: "js_space c \<Longrightarrow> trim (c # s) = trim s"
  by (simp add: trim_def)

lemma find_close_skip:
  assumes "CHR ''\<newline>'' \<notin> set l"
  shows "find_close (l @ s) = map_option (\<lambda>(a, b). (l @ a, b)) (find_close s)"
  using assms
proof (induction l)
  case Nil
  show ?case by (simp add: option.map_ident case_prod_unfold)
next
  case (Cons c l)
  then have "find_close (l @ s) = map_option (\<lambda>(a, b). (l @ a, b)) (find_close s)" by simp
  moreover have "\<not> startsWith (c # l @ s) ''\<newline>---''"
    using Cons.prems by (auto simp: startsWith_def)
  ultimately show ?case
    by (simp add: option.map_comp o_def case_prod_unfold)
qed

lemma find_close_here: "find_close (''\<newline>---'' @ s) = Some ([], s)"
  by (simp add: startsWith_def)

lemma join_Cons: "xs \<noteq> [] \<Longrightarrow> join sep (x # xs) = x @ sep @ join sep xs"
  by (cases xs) simp_all

lemma join_hd_prefix: "xs \<noteq> [] \<Longrightarrow> \<exists>t. join sep xs = hd xs @ t"
  by (cases xs; cases "tl xs") auto

lemma find_close_lines:
  assumes "ls \<noteq> []" "\<forall>l \<in> set ls. safe_line l"
  shows "find_close (join ''\<newline>'' ls @ ''\<newline>---'' @ s) = Some (join ''\<newline>'' ls, s)"
  using assms
proof (induction ls rule: list_nonempty_induct)
  case (single x)
  then have x: "CHR ''\<newline>'' \<notin> set x" by (simp add: safe_line_def)
  have "find_close (x @ ''\<newline>---'' @ s)
      = map_option (\<lambda>(a, b). (x @ a, b)) (find_close (''\<newline>---'' @ s))"
    by (rule find_close_skip [OF x])
  also have "\<dots> = Some (x, s)"
    unfolding find_close_here by simp
  finally show ?case by simp
next
  case (cons x xs)
  have x: "CHR ''\<newline>'' \<notin> set x" and y: "safe_line (hd xs)"
    using cons by (simp_all add: safe_line_def)
  define J where "J = join ''\<newline>'' xs"
  have IH: "find_close (J @ ''\<newline>---'' @ s) = Some (J, s)"
    unfolding J_def using cons by simp
  obtain t where J: "J = hd xs @ t"
    unfolding J_def using join_hd_prefix [OF cons.hyps(1)] by blast
  obtain a b c u where yt: "hd xs = a # b # c # u"
    using y by (cases "hd xs"; cases "tl (hd xs)"; cases "tl (tl (hd xs))") (auto simp: safe_line_def)
  have nodash: "[a, b, c] \<noteq> ''---''"
    using y by (simp add: safe_line_def yt)
  define rest where "rest = J @ ''\<newline>---'' @ s"
  have rest3: "take 3 rest = [a, b, c]"
    unfolding rest_def J yt by simp
  have "startsWith (CHR ''\<newline>'' # rest) ''\<newline>---'' \<longleftrightarrow> take 3 rest = ''---''"
    by (simp add: startsWith_def numeral_3_eq_3)
  then have "\<not> startsWith (CHR ''\<newline>'' # rest) ''\<newline>---''"
    using nodash unfolding rest3 by simp
  then have "find_close (CHR ''\<newline>'' # rest)
      = map_option (\<lambda>(u, v). (CHR ''\<newline>'' # u, v)) (find_close rest)"
    by simp
  also have "\<dots> = Some (CHR ''\<newline>'' # J, s)"
    unfolding rest_def IH by simp
  finally have step: "find_close (CHR ''\<newline>'' # rest) = Some (CHR ''\<newline>'' # J, s)" .
  have e: "join ''\<newline>'' (x # xs) = x @ CHR ''\<newline>'' # J"
    unfolding J_def by (simp add: join_Cons [OF cons.hyps(1)])
  have "find_close (join ''\<newline>'' (x # xs) @ ''\<newline>---'' @ s) = find_close (x @ (CHR ''\<newline>'' # rest))"
    unfolding e rest_def by simp
  also have "\<dots> = map_option (\<lambda>(a, b). (x @ a, b)) (find_close (CHR ''\<newline>'' # rest))"
    by (rule find_close_skip [OF x])
  also have "\<dots> = Some (join ''\<newline>'' (x # xs), s)"
    unfolding step e by simp
  finally show ?case .
qed

lemma split_nonempty: "split c s \<noteq> []"
  by (induction s) (auto split: list.splits)

lemma split_skip:
  assumes "c \<notin> set l"
  shows "split c (l @ s) = (l @ hd (split c s)) # tl (split c s)"
  using assms
proof (induction l)
  case Nil
  then show ?case using split_nonempty [of c s] by simp
next
  case (Cons x l)
  then show ?case by auto
qed

lemma split_join:
  assumes "ls \<noteq> []" "\<forall>l \<in> set ls. c \<notin> set l"
  shows "split c (join [c] ls) = ls"
  using assms
proof (induction ls rule: list_nonempty_induct)
  case (single x)
  then show ?case using split_skip [of c x "[]"] by simp
next
  case (cons x xs)
  then have x: "c \<notin> set x" and IH: "split c (join [c] xs) = xs" by simp_all
  have "join [c] (x # xs) = x @ (c # join [c] xs)"
    by (simp add: join_Cons [OF cons.hyps(1)])
  then show ?case
    by (simp only: split_skip [OF x]) (simp add: IH)
qed

lemma indexOf_skip: "c \<notin> set k \<Longrightarrow> indexOf c (k @ c # s) = Some (length k)"
  by (induction k) auto

lemma to_string_plain:
  assumes "plain_value env v"
  shows "single_line (to_string env v)" and "coerce env (to_string env v) = v"
proof -
  show "single_line (to_string env v)"
    using assms by (cases v) (auto simp: single_line_def trim_def js_space_def)
  show "coerce env (to_string env v) = v"
    using assms by (cases v) (auto simp: coerce_def isNaN_def single_line_def)
qed

lemma entry_line_plain:
  "plain_value env v \<Longrightarrow> entry_line env (k, v) = k @ CHR '':'' # CHR '' '' # to_string env v"
  by (cases v) simp_all

lemma key_before_trans: "key_before a b \<Longrightarrow> key_before b c \<Longrightarrow> key_before a c"
  by (auto simp: key_before_def split: option.splits)

lemma key_order_last: "key_order (a # ks @ [k]) \<Longrightarrow> key_before a k"
proof (induction ks arbitrary: a)
  case Nil
  then show ?case by simp
next
  case (Cons b ks)
  then have "key_before a b" "key_before b k" by simp_all
  then show ?case by (rule key_before_trans)
qed

lemma key_order_tl: "key_order (a # ks) \<Longrightarrow> key_order ks"
  by (cases ks) simp_all

lemma key_order_prefix: "key_order (xs @ ys) \<Longrightarrow> key_order xs"
proof (induction xs rule: key_order.induct)
  case (1 a b ks)
  then show ?case by simp
qed simp_all

lemma put_fresh:
  assumes "k \<notin> fst ` set acc" and "key_order (map fst acc @ [k])"
  shows "put k v acc = acc @ [(k, v)]"
  using assms
proof (induction acc)
  case Nil
  show ?case by simp
next
  case (Cons e acc)
  obtain k' v' where e: "e = (k', v')" by (cases e)
  have "key_before k' k"
    using Cons.prems(2) key_order_last [of k' "map fst acc" k] by (simp add: e)
  moreover have "k \<noteq> k'" using Cons.prems(1) by (simp add: e)
  moreover have "put k v acc = acc @ [(k, v)]"
    using Cons.prems key_order_tl [of k' "map fst acc @ [k]"] by (intro Cons.IH) (simp_all add: e)
  ultimately show ?case by (simp add: e)
qed

lemma parse_entry_line:
  assumes "plain_key k" "plain_value env v"
  shows "parse_lines env (entry_line env (k, v) # ls) acc = parse_lines env ls (put k v acc)"
proof -
  define vs where "vs = to_string env v"
  have line: "entry_line env (k, v) = k @ CHR '':'' # CHR '' '' # vs"
    unfolding vs_def by (rule entry_line_plain [OF assms(2)])
  have k: "trim k = k" "CHR '':'' \<notin> set k" "k \<noteq> ''__proto__''"
    using assms(1) by (simp_all add: plain_key_def)
  have vs: "trim vs = vs" "coerce env vs = v"
    using to_string_plain [OF assms(2)] by (simp_all add: vs_def single_line_def)
  have idx: "indexOf CHR '':'' (entry_line env (k, v)) = Some (length k)"
    unfolding line by (rule indexOf_skip [OF k(2)])
  have "trim (drop (length k + 1) (entry_line env (k, v))) = trim (CHR '' '' # vs)"
    unfolding line by simp
  also have "\<dots> = vs"
    using vs(1) by (simp add: trim_space_Cons js_space_def)
  finally have val: "trim (drop (length k + 1) (entry_line env (k, v))) = vs" .
  have key: "trim (take (length k) (entry_line env (k, v))) = k"
    unfolding line using k(1) by simp
  show ?thesis
    by (simp only: parse_lines.simps idx option.case key val vs(2)) (simp add: set_prop_def k(3))
qed

lemma parse_lines_plain:
  assumes "\<forall>(k, v) \<in> set m. plain_key k \<and> plain_value env v" "distinct (map fst (acc @ m))"
    and "key_order (map fst (acc @ m))"
  shows "parse_lines env (map (entry_line env) m) acc = acc @ m"
  using assms
proof (induction m arbitrary: acc)
  case Nil
  show ?case by simp
next
  case (Cons e m)
  obtain k v where e: "e = (k, v)" by (cases e)
  have pk: "plain_key k" "plain_value env v" using Cons.prems(1) by (simp_all add: e)
  have fresh: "k \<notin> fst ` set acc" using Cons.prems(2) by (auto simp: e)
  have "key_order ((map fst acc @ [k]) @ map fst m)"
    using Cons.prems(3) by (simp add: e)
  then have order: "key_order (map fst acc @ [k])"
    by (rule key_order_prefix)
  have "parse_lines env (map (entry_line env) (e # m)) acc
      = parse_lines env (map (entry_line env) m) (put k v acc)"
    unfolding e using parse_entry_line [OF pk] by simp
  also have "\<dots> = parse_lines env (map (entry_line env) m) (acc @ [(k, v)])"
    by (simp only: put_fresh [OF fresh order])
  also have "\<dots> = (acc @ [(k, v)]) @ m"
    using Cons.prems by (intro Cons.IH) (auto simp: e)
  finally show ?case by (simp add: e)
qed

lemma safe_entry_line:
  assumes "plain_key k" "plain_value env v"
  shows "safe_line (entry_line env (k, v))"
proof -
  define vs where "vs = to_string env v"
  define line where "line = k @ CHR '':'' # CHR '' '' # vs"
  have e: "entry_line env (k, v) = line"
    unfolding vs_def line_def by (rule entry_line_plain [OF assms(2)])
  have vs: "vs \<noteq> []" "CHR ''\<newline>'' \<notin> set vs"
    using to_string_plain(1) [OF assms(2)] by (simp_all add: vs_def single_line_def)
  have k: "CHR ''\<newline>'' \<notin> set k" "take 3 k \<noteq> ''---''"
    using assms(1) by (simp_all add: plain_key_def startsWith_def numeral_3_eq_3)
  have 1: "CHR ''\<newline>'' \<notin> set line" using k(1) vs(2) by (simp add: line_def)
  have 2: "3 \<le> length line" using vs(1) by (cases vs) (simp_all add: line_def)
  have 3: "take 3 line \<noteq> ''---''"
  proof (cases "3 \<le> length k")
    case True
    then have "take 3 line = take 3 k" by (simp add: line_def)
    with k(2) show ?thesis by simp
  next
    case False
    then have lt: "length k < 3" by simp
    have "take 3 line ! length k = line ! length k"
      using lt by simp
    also have "\<dots> = CHR '':''" by (simp add: line_def nth_append)
    finally have "take 3 line ! length k = CHR '':''" .
    moreover have "''---'' ! length k = CHR ''-''"
      using lt by (cases "length k"; cases "length k - 1"; cases "length k - 2") auto
    ultimately show ?thesis by auto
  qed
  from 1 2 3 show ?thesis unfolding e safe_line_def by blast
qed

lemma join_append:
  "xs \<noteq> [] \<Longrightarrow> ys \<noteq> [] \<Longrightarrow> join sep (xs @ ys) = join sep xs @ sep @ join sep ys"
proof (induction xs rule: list_nonempty_induct)
  case (single x)
  then show ?case by (simp add: join_Cons)
next
  case (cons x xs)
  then show ?case by (simp add: join_Cons)
qed

lemma build_shape:
  assumes "m \<noteq> []"
  shows "buildYamlFrontMatter env m d
     = ''---\<newline>'' @ join ''\<newline>'' (map (entry_line env) m) @ ''\<newline>---'' @ ''\<newline>\<newline>'' @ d"
proof -
  define ls where "ls = map (entry_line env) m"
  have ls: "ls \<noteq> []" using assms by (simp add: ls_def)
  have "join ''\<newline>'' (ls @ [''---'', [], d]) = join ''\<newline>'' ls @ ''\<newline>'' @ join ''\<newline>'' [''---'', [], d]"
    by (rule join_append [OF ls]) simp
  moreover have "join ''\<newline>'' ([''---''] @ ls @ [''---'', [], d])
      = ''---'' @ ''\<newline>'' @ join ''\<newline>'' (ls @ [''---'', [], d])"
    using ls by (simp add: join_Cons)
  ultimately show ?thesis
    unfolding buildYamlFrontMatter_def ls_def [symmetric] by simp
qed

text \<open>
  C1, as the code has it. For a non-empty metadata map (an object: its keys are
  distinct and stand in the order in which it enumerates them) with plain keys
  and plain values (booleans, null, numbers and strings that the coercion chain
  reads back; lists are not among them) and a description without white space
  at its ends, decoding the encoded body returns the map, in its order, and the
  description.
\<close>

theorem front_matter_round_trip:
  assumes "m \<noteq> []" and "distinct (map fst m)"
    and "\<forall>(k, v) \<in> set m. plain_key k \<and> plain_value env v"
    and "trim d = d"
    and "key_order (map fst m)"
  shows "parseYamlFrontMatter env (buildYamlFrontMatter env m d) = \<lparr>meta = m, description = d\<rparr>"
proof -
  define ls where "ls = map (entry_line env) m"
  define J where "J = join ''\<newline>'' ls"
  define body where "body = buildYamlFrontMatter env m d"
  have ls: "ls \<noteq> []" using assms(1) by (simp add: ls_def)
  have safe: "\<forall>l \<in> set ls. safe_line l"
    using assms(3) safe_entry_line by (fastforce simp: ls_def)
  have body: "body = ''---\<newline>'' @ J @ ''\<newline>---'' @ ''\<newline>\<newline>'' @ d"
    unfolding body_def J_def ls_def by (rule build_shape [OF assms(1)])
  have nonempty: "body \<noteq> []" unfolding body by simp
  have start: "startsWith body ''---\<newline>''" unfolding body by (simp add: startsWith_def)
  have rest: "drop 4 body = J @ ''\<newline>---'' @ ''\<newline>\<newline>'' @ d" unfolding body by simp
  have close: "find_close (drop 4 body) = Some (J, ''\<newline>\<newline>'' @ d)"
    unfolding rest J_def by (rule find_close_lines [OF ls safe])
  have m: "match_front_matter body = Some (J, CHR ''\<newline>'' # d)"
    unfolding match_front_matter_def using start by (simp add: close startsWith_def)
  have lines: "split CHR ''\<newline>'' J = ls"
    unfolding J_def using safe by (intro split_join [OF ls]) (simp add: safe_line_def)
  have "distinct (map fst ([] @ m))" "key_order (map fst ([] @ m))"
    using assms(2,5) by simp_all
  from parse_lines_plain [OF assms(3) this]
  have meta: "parse_lines env ls [] = m" by (simp add: ls_def)
  have descr: "trim (CHR ''\<newline>'' # d) = d"
    using assms(4) by (simp add: trim_space_Cons js_space_def)
  have "parseYamlFrontMatter env body = \<lparr>meta = m, description = d\<rparr>"
    unfolding parseYamlFrontMatter_def using nonempty by (simp add: m lines meta descr)
  then show ?thesis unfolding body_def .
qed

theorem front_matter_round_trip_witness:
  "parseYamlFrontMatter sample_runtime
     (buildYamlFrontMatter sample_runtime
        [(''priority'', JStr ''high''), (''due_date'', JStr ''2026-02-10''),
         (''estimated_hours'', JNum (Finite 3)), (''my_day'', JBool False),
         (''parent_task'', JNull)]
        ''Fix the login bug'')
   = \<lparr>meta = [(''priority'', JStr ''high''), (''due_date'', JStr ''2026-02-10''),
         (''estimated_hours'', JNum (Finite 3)), (''my_day'', JBool False),
         (''parent_task'', JNull)],
       description = ''Fix the login bug''\<rparr>"
proof -
  let ?m = "[(''priority'', JStr ''high''), (''due_date'', JStr ''2026-02-10''),
         (''estimated_hours'', JNum (Finite 3)), (''my_day'', JBool False),
         (''parent_task'', JNull)]"
  have 1: "?m \<noteq> []" by simp
  have 2: "distinct (map fst ?m)" by simp
  have keys: "plain_key ''priority''" "plain_key ''due_date''" "plain_key ''estimated_hours''"
    "plain_key ''my_day''" "plain_key ''parent_task''"
    by (simp_all add: plain_key_def trim_def js_space_def startsWith_def)
  have vals: "plain_value sample_runtime (JStr ''high'')"
    "plain_value sample_runtime (JStr ''2026-02-10'')"
    "plain_value sample_runtime (JNum (Finite 3))"
    by code_simp+
  have 3: "\<forall>(k, v) \<in> set ?m. plain_key k \<and> plain_value sample_runtime v"
    using keys vals by simp
  have 4: "trim ''Fix the login bug'' = ''Fix the login bug''"
    by (simp add: trim_def js_space_def)
  have 5: "key_order (map fst ?m)"
    by code_simp
  show ?thesis by (rule front_matter_round_trip [OF 1 2 3 4 5])
qed

text \<open>A description that opens with four spaces (an indented code block) comes
  back without them.\<close>

theorem front_matter_round_trip_counterexample:
  "parseYamlFrontMatter sample_runtime
     (buildYamlFrontMatter sample_runtime [(''priority'', JStr ''high'')] ''    code'')
   = \<lparr>meta = [(''priority'', JStr ''high'')], description = ''code''\<rparr>
   \<and> parseYamlFrontMatter sample_runtime
     (buildYamlFrontMatter sample_runtime [(''priority'', JStr ''high'')] ''    code'')
   \<noteq> \<lparr>meta = [(''priority'', JStr ''high'')], description = ''    code''\<rparr>"
  by code_simp

text \<open>Outside the statement above: a list comes back as one string, and with an
  empty map the whole body comes back as the description.\<close>

lemma front_matter_list_example:
  "parseYamlFrontMatter sample_runtime
     (buildYamlFrontMatter sample_runtime [(''tags'', JArr [''ui'', ''bug''])] ''notes'')
   = \<lparr>meta = [(''tags'', JStr ''ui, bug'')], description = ''notes''\<rparr>"
  by code_simp

lemma front_matter_empty_example:
  "parseYamlFrontMatter sample_runtime (buildYamlFrontMatter sample_runtime [] ''notes'')
   = \<lparr>meta = [], description = ''---\<newline>---\<newline>\<newline>notes''\<rparr>"
  by code_simp

end
